theory Spec2Isabelle
  imports Main "HOL-Library.Word"
begin

section \<open>The synchronisation core of the SPV wallet (eight333.go)\<close>

text \<open>
  The handlers of \<^verbatim>\<open>eight333.go\<close> are embedded as functions on the wallet's
  state. What a handler does to its collaborators (the header chain, the transaction
  store, the peer manager, the peers) is recorded, call by call and in program order,
  in a trace of events; what the collaborators answer is a parameter (\<open>env\<close>), so
  every theorem holds for all answers they can give.
\<close>

subsection \<open>Values\<close>

text \<open>\<^verbatim>\<open>chainhash.Hash\<close> is 32 bytes; Go's \<^verbatim>\<open>int32\<close> and \<^verbatim>\<open>uint32\<close> are 32-bit
  words, read signed or unsigned by the comparison that is applied to them, and the
  conversions \<^verbatim>\<open>uint32(x)\<close> and \<^verbatim>\<open>int32(x)\<close> between them keep the bits.\<close>

type_synonym hash = "256 word"
type_synonym int32 = "32 word"
type_synonym uint32 = "32 word"

text \<open>\<^verbatim>\<open>time.Time\<close> and \<^verbatim>\<open>time.Duration\<close> in nanoseconds.\<close>

type_synonym time = int

datatype error = Error string

datatype ChainState = SYNCING | WAITING

text \<open>A peer, as far as the handlers read it: \<^verbatim>\<open>p.ID()\<close> and \<^verbatim>\<open>p.LastBlock()\<close>.\<close>

record peer =
  ID :: int32
  LastBlock :: int32

datatype InvType = InvTypeError | InvTypeTx | InvTypeBlock | InvTypeFilteredBlock

record InvVect =
  inv_Type :: InvType
  inv_Hash :: hash

datatype BlockHeader = BlockHeader (BlockHash: hash) (header_fields: nat)

text \<open>A merkle block: its header and the partial merkle tree (opaque here; only
  \<^verbatim>\<open>checkMBlock\<close> reads it).\<close>

record MsgMerkleBlock =
  Header :: BlockHeader
  proof_data :: nat

datatype MsgTx = MsgTx (TxHash: hash) (tx_bytes: nat)

datatype Filter = Filter nat

text \<open>The stored header that \<^verbatim>\<open>CommitHeader\<close> returns for a reorg.\<close>

record StoredHeader =
  sh_header :: BlockHeader
  sh_height :: uint32

text \<open>A row of the transaction table, as far as the sweep reads it.\<close>

record Txn =
  Txid :: string
  Height :: int32
  Timestamp :: time

datatype Message =
    MsgGetBlocks "hash list" hash
  | MsgGetData "InvVect list"
  | MsgFilterLoad Filter
  | MsgInv "InvVect list"
  | MsgOfTx MsgTx

subsection \<open>Events\<close>

datatype LogLevel = LDebug | LInfo | LNotice | LWarning | LError

text \<open>One event per call that leaves the engine: the mutex operations, a log line, a
  message queued to a peer, a disconnect, a call into the header chain or its database,
  into the transaction store or into the peer manager, a send on the \<^verbatim>\<open>fPositives\<close>
  channel and the start of a goroutine. The getters of the peer manager and of the peer
  (\<^verbatim>\<open>DownloadPeer\<close>, \<^verbatim>\<open>ID\<close>, \<^verbatim>\<open>LastBlock\<close>) leave no event.\<close>

datatype event =
    Lock | Unlock | RLock | RUnlock
  | Log LogLevel
  | QueueMessage peer Message
  | Disconnect peer
  | CallChainState
  | CallSetChainState ChainState
  | CallDbHeight
  | CallDbPut StoredHeader bool
  | CallGetBlockLocatorHashes
  | CallCommitHeader BlockHeader
  | CallCheckForMoreBlocks uint32
  | CallConnectedPeers
  | CallProcessReorg uint32
  | CallGetAll bool
  | CallMarkAsDead hash
  | CallIngest MsgTx int32
  | CallGimmeFilter
  | CallGetPendingInv
  | CallTxnsGet hash
  | SendFPositives peer
  | Go_startChainDownload peer

subsection \<open>The block queue: a buffered Go channel of hashes\<close>

text \<open>\<^verbatim>\<open>w.blockQueue\<close> is a channel of \<^verbatim>\<open>chainhash.Hash\<close>. Its capacity is fixed where
  the wallet is built, which is not in this file, so it is a field. Go's rules: a receive
  takes the oldest buffered value; on an empty channel it yields the zero value at once
  when the channel is closed and waits otherwise; a send on a closed channel panics, on
  a full one it waits; closing a closed channel panics.\<close>

record chan =
  buf :: "hash list"
  closed :: bool
  cap :: nat

datatype 'a chan_result = Ok 'a | Waits | Panics

definition chan_recv :: "chan \<Rightarrow> (hash \<times> chan) chan_result" where
  "chan_recv c =
     (case buf c of
        x # xs \<Rightarrow> Ok (x, c\<lparr>buf := xs\<rparr>)
      | [] \<Rightarrow> if closed c then Ok (0, c) else Waits)"

definition chan_send :: "hash \<Rightarrow> chan \<Rightarrow> chan chan_result" where
  "chan_send h c =
     (if closed c then Panics
      else if length (buf c) < cap c then Ok (c\<lparr>buf := buf c @ [h]\<rparr>)
      else Waits)"

definition chan_close :: "chan \<Rightarrow> chan chan_result" where
  "chan_close c = (if closed c then Panics else Ok (c\<lparr>closed := True\<rparr>))"

subsection \<open>The wallet's state and its collaborators\<close>

record SPVWallet =
  chainState :: ChainState
  blockQueue :: chan
  toDownload :: "hash \<rightharpoonup> int32"
  fpAccumulator :: "int32 \<rightharpoonup> int32"
  trace :: "event list"

text \<open>The header chain, the transaction store and the peer manager are collaborators whose
  code is not in \<^verbatim>\<open>eight333.go\<close>; \<^verbatim>\<open>checkMBlock\<close> (which returns the matched ids, taken to
  be non-nil pointers), \<^verbatim>\<open>chainhash.NewHashFromStr\<close> and the clock are functions from
  elsewhere too. What they answer during one run of a handler is a parameter. A Go result
  \<^verbatim>\<open>(v, err)\<close> whose error the code checks before it reads \<open>v\<close> is a sum (\<open>Inl\<close> the
  error). \<^verbatim>\<open>GetPendingInv\<close> returns a pointer to a message and an error, and
  \<^verbatim>\<open>Rebroadcast\<close> reads the message whatever the error was, so both are kept:
  \<open>None\<close> in the first component is the nil pointer. \<^verbatim>\<open>Ingest\<close> returns a hit count and
  an error; the count is kept beside the error, as Go returns it.

  Two more answers come from the other goroutines. The chain state is shared with
  them: between two reads of the handler another goroutine may set it, among them the
  \<^verbatim>\<open>startChainDownload\<close> that \<^verbatim>\<open>onMerkleBlock\<close> itself starts at line 94.
  \<open>set_by_others_93\<close> and \<open>set_by_others_96\<close> are what the others have set it to (if they
  have) when the handler reaches the reads of lines 93 and 96. The channel
  \<^verbatim>\<open>w.fPositives\<close> is made, received from and possibly closed elsewhere:
  \<open>send_fPositives\<close> is how the send of line 132 ends, completed (\<open>Ok\<close>), waiting because
  nobody takes the value, or panicking on a closed channel.\<close>

record env =
  DownloadPeer :: "peer option"
  dbHeight :: uint32
  CheckForMoreBlocks :: "uint32 \<Rightarrow> bool"
  GetBlockLocatorHashes :: "hash list"
  GetPendingInv :: "InvVect list option \<times> error option"
  ConnectedPeers :: "peer list"
  checkMBlock :: "MsgMerkleBlock \<Rightarrow> error + hash list"
  CommitHeader :: "BlockHeader \<Rightarrow> error + bool \<times> StoredHeader option \<times> uint32"
  processReorg :: "uint32 \<Rightarrow> error option"
  GetAll :: "bool \<Rightarrow> error + Txn list"
  time_Now :: time
  NewHashFromStr :: "string \<Rightarrow> error + hash"
  markAsDead :: "hash \<Rightarrow> error option"
  Ingest :: "MsgTx \<Rightarrow> int32 \<Rightarrow> uint32 \<times> error option"
  GimmeFilter :: "error + Filter"
  TxnsGet :: "hash \<Rightarrow> error + MsgTx"
  set_by_others_93 :: "ChainState option"
  set_by_others_96 :: "ChainState option"
  send_fPositives :: "unit chan_result"

text \<open>How a piece of code ends: it returns, it panics, or it waits on a channel.
  Each carries the state reached.\<close>

datatype 'a result = Done 'a | Panic 'a | Blocked 'a

definition emit :: "event \<Rightarrow> SPVWallet \<Rightarrow> SPVWallet" where
  "emit e w = w\<lparr>trace := trace w @ [e]\<rparr>"

text \<open>\<^verbatim>\<open>w.blockchain.ChainState()\<close> and \<^verbatim>\<open>w.blockchain.SetChainState(s)\<close>: the
  process-wide chain state, read and written through the header chain.\<close>

definition SetChainState :: "ChainState \<Rightarrow> SPVWallet \<Rightarrow> SPVWallet" where
  "SetChainState st w = emit (CallSetChainState st) (w\<lparr>chainState := st\<rparr>)"

text \<open>A write of the chain state by another goroutine, if there was one.\<close>

definition others_set :: "ChainState option \<Rightarrow> SPVWallet \<Rightarrow> SPVWallet" where
  "others_set c w = (case c of None \<Rightarrow> w | Some st \<Rightarrow> w\<lparr>chainState := st\<rparr>)"

definition maxHash :: hash where
  "maxHash = 0"

definition MAX_UNCONFIRMED_TIME :: time where
  "MAX_UNCONFIRMED_TIME = 3600 * 1000000000 * 24 * 7"

subsection \<open>updateFilterAndSend and Rebroadcast\<close>

definition updateFilterAndSend :: "env \<Rightarrow> peer \<Rightarrow> SPVWallet \<Rightarrow> SPVWallet" where
  "updateFilterAndSend e p w =
     (let w1 = emit CallGimmeFilter w in
      case GimmeFilter e of
        Inl err \<Rightarrow> emit (Log LError) w1
      | Inr filt \<Rightarrow> emit (Log LDebug) (emit (QueueMessage p (MsgFilterLoad filt)) w1))"

text \<open>The loop of \<^verbatim>\<open>Rebroadcast\<close> over the connected peers.\<close>

fun queue_to_all :: "Message \<Rightarrow> peer list \<Rightarrow> SPVWallet \<Rightarrow> SPVWallet" where
  "queue_to_all msg [] w = w"
| "queue_to_all msg (p # ps) w = queue_to_all msg ps (emit (QueueMessage p msg) w)"

text \<open>\<^verbatim>\<open>Rebroadcast\<close> logs the error of \<^verbatim>\<open>GetPendingInv\<close> and goes on to read
  \<^verbatim>\<open>invMsg.InvList\<close>: with a nil message that is a nil dereference, a panic.\<close>

definition Rebroadcast :: "env \<Rightarrow> SPVWallet \<Rightarrow> SPVWallet result" where
  "Rebroadcast e w =
     (let w1 = emit CallGetPendingInv w;
          w2 = (case snd (GetPendingInv e) of Some err \<Rightarrow> emit (Log LError) w1 | None \<Rightarrow> w1)
      in case fst (GetPendingInv e) of
           None \<Rightarrow> Panic w2
         | Some invList \<Rightarrow>
             if length invList = 0 then Done w2
             else Done (queue_to_all (MsgInv invList) (ConnectedPeers e)
                          (emit CallConnectedPeers w2)))"

subsection \<open>startChainDownload\<close>

text \<open>The body between \<^verbatim>\<open>w.mutex.Lock()\<close> and the deferred calls. The comparison
  \<^verbatim>\<open>height >= uint32(p.LastBlock())\<close> is unsigned.\<close>

definition startChainDownload_body :: "env \<Rightarrow> peer \<Rightarrow> SPVWallet \<Rightarrow> SPVWallet result" where
  "startChainDownload_body e p w =
     (let w1 = emit CallChainState w in
      if chainState w1 = SYNCING then
        (let w2 = emit CallDbHeight w1;
             height = dbHeight e in
         if LastBlock p \<le> height then
           (let w3 = emit (CallCheckForMoreBlocks height) w2;
                moar = CheckForMoreBlocks e height in
            if \<not> moar then
              (let w4 = emit (Log LInfo) w3;
                   w5 = SetChainState WAITING w4 in
               case Rebroadcast e w5 of
                 Done w6 \<Rightarrow>
                   (case chan_close (blockQueue w6) of
                      Ok q \<Rightarrow> Done (w6\<lparr>blockQueue := q\<rparr>)
                    | Panics \<Rightarrow> Panic w6
                    | Waits \<Rightarrow> Blocked w6)
               | Panic w6 \<Rightarrow> Panic w6
               | Blocked w6 \<Rightarrow> Blocked w6)
            else Done w3)
         else
           (let w3 = emit CallGetBlockLocatorHashes w2;
                hashes = GetBlockLocatorHashes e
            in Done (emit (QueueMessage p (MsgGetBlocks hashes maxHash)) w3)))
      else Done w1)"

text \<open>The deferred calls run last in, first out: the mutex is released, then the
  recovering function logs a panic and swallows it.\<close>

definition startChainDownload :: "env \<Rightarrow> peer \<Rightarrow> SPVWallet \<Rightarrow> SPVWallet result" where
  "startChainDownload e p w =
     (case startChainDownload_body e p (emit Lock w) of
        Done w' \<Rightarrow> Done (emit Unlock w')
      | Panic w' \<Rightarrow> Done (emit (Log LError) (emit Unlock w'))
      | Blocked w' \<Rightarrow> Blocked w')"

subsection \<open>onMerkleBlock\<close>

text \<open>One turn of the sweep loop (the body of the loop at lines 103 to 117).\<close>

definition sweep_one :: "env \<Rightarrow> Txn \<Rightarrow> SPVWallet \<Rightarrow> SPVWallet" where
  "sweep_one e t w =
     (if Timestamp t + MAX_UNCONFIRMED_TIME < time_Now e \<and> Height t = 0 then
        (let w1 = emit (Log LNotice) w in
         case NewHashFromStr e (Txid t) of
           Inl err \<Rightarrow> emit (Log LError) w1
         | Inr h \<Rightarrow>
             (let w2 = emit (CallMarkAsDead h) w1 in
              case markAsDead e h of
                Some err \<Rightarrow> emit (Log LError) w2
              | None \<Rightarrow> w2))
      else w)"

text \<open>The loop runs from the last row to the first: \<open>sweep\<close> is applied to the
  reversed list.\<close>

fun sweep :: "env \<Rightarrow> Txn list \<Rightarrow> SPVWallet \<Rightarrow> SPVWallet" where
  "sweep e [] w = w"
| "sweep e (t # ts) w = sweep e ts (sweep_one e t w)"

text \<open>The loop at lines 87 to 91: each matched id is recorded at the committed height,
  under the mutex.\<close>

fun record_txids :: "hash list \<Rightarrow> uint32 \<Rightarrow> SPVWallet \<Rightarrow> SPVWallet" where
  "record_txids [] height w = w"
| "record_txids (txid # txids) height w =
     record_txids txids height
       (emit Unlock ((emit Lock w)\<lparr>toDownload := (toDownload w)(txid \<mapsto> height)\<rparr>))"

text \<open>Lines 92 to 118, after the matched ids are recorded. Each of the two reads of the
  chain state sees what the other goroutines have made of it by then: the read of line
  96 can answer WAITING in a run that was entered, and read line 93, in SYNCING.\<close>

definition after_commit :: "env \<Rightarrow> peer \<Rightarrow> SPVWallet \<Rightarrow> SPVWallet" where
  "after_commit e p w =
     (let w1 = others_set (set_by_others_93 e) (emit (Log LDebug) w);
          w2 = (if length (buf (blockQueue w1)) = 0 then
                  (let w' = emit CallChainState w1 in
                   if chainState w' = SYNCING then emit (Go_startChainDownload p) w' else w')
                else w1);
          w3 = emit CallChainState (others_set (set_by_others_96 e) w2)
      in if chainState w3 = WAITING then
           (let w4 = emit (CallGetAll False) w3 in
            case GetAll e False of
              Inl err \<Rightarrow> emit (Log LError) w4
            | Inr txns \<Rightarrow> sweep e (rev txns) w4)
         else w3)"

text \<open>Lines 60 to 119: proof validation, header commit, reorg or normal path.\<close>

definition process_block :: "env \<Rightarrow> peer \<Rightarrow> MsgMerkleBlock \<Rightarrow> SPVWallet \<Rightarrow> SPVWallet" where
  "process_block e p m w =
     (case checkMBlock e m of
        Inl err \<Rightarrow> emit (Disconnect p) (emit (Log LError) w)
      | Inr txids \<Rightarrow>
          (let w1 = emit (CallCommitHeader (Header m)) w in
           case CommitHeader e (Header m) of
             Inl err \<Rightarrow> emit (Log LWarning) w1
           | Inr (newBlock, reorg, height) \<Rightarrow>
               if \<not> newBlock then w1
               else
                 (case reorg of
                    Some r \<Rightarrow>
                      (let w2 = emit (CallProcessReorg (sh_height r)) w1;
                           w3 = (case processReorg e (sh_height r) of
                                   Some err \<Rightarrow> emit (Log LError) w2
                                 | None \<Rightarrow> w2);
                           w4 = SetChainState SYNCING w3;
                           w5 = emit (CallDbPut r True) w4
                       in emit (Go_startChainDownload p) w5)
                  | None \<Rightarrow> after_commit e p (record_txids txids height w1))))"

text \<open>The condition of lines 51 and 159: syncing, and the sender is the download peer.\<close>

definition from_download_peer :: "env \<Rightarrow> peer \<Rightarrow> bool" where
  "from_download_peer e p =
     (case DownloadPeer e of None \<Rightarrow> False | Some d \<Rightarrow> ID d = ID p)"

definition onMerkleBlock :: "env \<Rightarrow> peer \<Rightarrow> MsgMerkleBlock \<Rightarrow> SPVWallet \<Rightarrow> SPVWallet result" where
  "onMerkleBlock e p m w =
     (let w1 = emit CallChainState w in
      if chainState w1 = SYNCING \<and> from_download_peer e p then
        (case chan_recv (blockQueue w1) of
           Waits \<Rightarrow> Blocked w1
         | Panics \<Rightarrow> Panic w1
         | Ok (queueHash, q) \<Rightarrow>
             (let w2 = w1\<lparr>blockQueue := q\<rparr>;
                  headerHash = BlockHash (Header m) in
              if headerHash \<noteq> queueHash then
                Done (emit (Disconnect p) (emit (Log LError) w2))
              else Done (process_block e p m w2)))
      else Done (process_block e p m w1))"

subsection \<open>onTx\<close>

text \<open>Reading a missing key of a Go map yields the zero value.\<close>

definition map_get :: "('k \<rightharpoonup> int32) \<Rightarrow> 'k \<Rightarrow> int32" where
  "map_get m k = (case m k of None \<Rightarrow> 0 | Some v \<Rightarrow> v)"

text \<open>The send \<^verbatim>\<open>w.fPositives <- p\<close> of line 132 is a channel send: the miss event is
  emitted when it completes; the handler waits in it while nobody takes the value, and
  a send on a closed channel panics (\<^verbatim>\<open>onTx\<close> recovers nothing).\<close>

definition onTx :: "env \<Rightarrow> peer \<Rightarrow> MsgTx \<Rightarrow> SPVWallet \<Rightarrow> SPVWallet result" where
  "onTx e p m w =
     (let w1 = emit RUnlock (emit RLock w);
          height = map_get (toDownload w1) (TxHash m);
          w2 = emit (CallIngest m height) w1;
          hits = fst (Ingest e m height)
      in case snd (Ingest e m height) of
           Some err \<Rightarrow> Done (emit (Log LError) w2)
         | None \<Rightarrow>
             if hits = 0 then
               (let w3 = emit (Log LDebug) w2 in
                case send_fPositives e of
                  Ok u \<Rightarrow> Done (emit (SendFPositives p) w3)
                | Waits \<Rightarrow> Blocked w3
                | Panics \<Rightarrow> Panic w3)
             else Done (emit (Log LInfo) (updateFilterAndSend e p w2)))"

subsection \<open>onInv\<close>

text \<open>The goroutine that \<^verbatim>\<open>onInv\<close> starts: the loop over the inventory list. A
  panic or a wait on the block queue ends the loop where it stands.\<close>

fun onInv_loop :: "env \<Rightarrow> peer \<Rightarrow> InvVect list \<Rightarrow> SPVWallet \<Rightarrow> SPVWallet result" where
  "onInv_loop e p [] w = Done w"
| "onInv_loop e p (iv # rest) w =
     (case inv_Type iv of
        InvTypeBlock \<Rightarrow>
          (let iv' = iv\<lparr>inv_Type := InvTypeFilteredBlock\<rparr>;
               w1 = emit (QueueMessage p (MsgGetData [iv'])) w;
               w2 = emit CallChainState w1 in
           if chainState w2 = SYNCING \<and> from_download_peer e p then
             (case chan_send (inv_Hash iv') (blockQueue w2) of
                Ok q \<Rightarrow> onInv_loop e p rest (w2\<lparr>blockQueue := q\<rparr>)
              | Panics \<Rightarrow> Panic w2
              | Waits \<Rightarrow> Blocked w2)
           else onInv_loop e p rest w2)
      | InvTypeTx \<Rightarrow> onInv_loop e p rest (emit (QueueMessage p (MsgGetData [iv])) w)
      | InvTypeError \<Rightarrow> onInv_loop e p rest w
      | InvTypeFilteredBlock \<Rightarrow> onInv_loop e p rest w)"

text \<open>The deferred function of the goroutine recovers a panic and logs it.\<close>

definition onInv :: "env \<Rightarrow> peer \<Rightarrow> InvVect list \<Rightarrow> SPVWallet \<Rightarrow> SPVWallet result" where
  "onInv e p invList w =
     (case onInv_loop e p invList w of
        Done w' \<Rightarrow> Done w'
      | Panic w' \<Rightarrow> Done (emit (Log LError) w')
      | Blocked w' \<Rightarrow> Blocked w')"

subsection \<open>onGetData\<close>

fun onGetData_loop :: "env \<Rightarrow> peer \<Rightarrow> InvVect list \<Rightarrow> SPVWallet \<Rightarrow> SPVWallet" where
  "onGetData_loop e p [] w = w"
| "onGetData_loop e p (thing # rest) w =
     (if inv_Type thing = InvTypeTx then
        (let w1 = emit (CallTxnsGet (inv_Hash thing)) w in
         case TxnsGet e (inv_Hash thing) of
           Inl err \<Rightarrow> onGetData_loop e p rest (emit (Log LError) w1)
         | Inr tx \<Rightarrow> onGetData_loop e p rest (emit (QueueMessage p (MsgOfTx tx)) w1))
      else onGetData_loop e p rest (emit (Log LDebug) w))"

definition onGetData :: "env \<Rightarrow> peer \<Rightarrow> InvVect list \<Rightarrow> SPVWallet \<Rightarrow> SPVWallet" where
  "onGetData e p invList w =
     emit (Log LDebug) (onGetData_loop e p invList (emit (Log LDebug) w))"

subsection \<open>fPositiveHandler\<close>

text \<open>The case \<^verbatim>\<open>peer := <-w.fPositives\<close> of the select (lines 199 to 212). The
  counter is an \<^verbatim>\<open>int32\<close>: \<^verbatim>\<open>falsePostives > 7\<close> is a signed comparison.\<close>

definition fPositive :: "env \<Rightarrow> peer \<Rightarrow> SPVWallet \<Rightarrow> SPVWallet" where
  "fPositive e p w =
     (let w1 = emit RUnlock (emit RLock w);
          falsePostives = map_get (fpAccumulator w1) (ID p) + 1;
          w2 = (if 7 <s falsePostives
                then emit (Log LDebug) (updateFilterAndSend e p w1) else w1);
          falsePostives' = (if 7 <s falsePostives then 0 else falsePostives);
          w3 = emit Lock w2
      in emit Unlock (w3\<lparr>fpAccumulator := (fpAccumulator w3)(ID p \<mapsto> falsePostives')\<rparr>))"

text \<open>What the select receives, turn by turn: a peer from \<^verbatim>\<open>w.fPositives\<close>, with the
  collaborators' answers at that moment, or the quit signal. When nothing more arrives
  the loop waits in the select.\<close>

datatype received = FromFPositives env peer | FromQuit

fun fPositiveHandler :: "received list \<Rightarrow> SPVWallet \<Rightarrow> SPVWallet result" where
  "fPositiveHandler [] w = Blocked w"
| "fPositiveHandler (FromQuit # rest) w = Done w"
| "fPositiveHandler (FromFPositives e p # rest) w = fPositiveHandler rest (fPositive e p w)"

subsection \<open>Notions the properties are stated with\<close>

fun state_of :: "'a result \<Rightarrow> 'a" where
  "state_of (Done w) = w"
| "state_of (Panic w) = w"
| "state_of (Blocked w) = w"

text \<open>The order check of lines 51 to 59, read as a test: the queue it leaves when the
  block goes on to proof validation (the check does not apply, or the hash received from
  the queue is the header's hash), and \<open>None\<close> when the handler stops there.\<close>

definition order_check :: "env \<Rightarrow> peer \<Rightarrow> MsgMerkleBlock \<Rightarrow> SPVWallet \<Rightarrow> chan option" where
  "order_check e p m w =
     (if chainState w = SYNCING \<and> from_download_peer e p then
        (case chan_recv (blockQueue w) of
           Ok (h, q) \<Rightarrow> if BlockHash (Header m) = h then Some q else None
         | Waits \<Rightarrow> None
         | Panics \<Rightarrow> None)
      else Some (blockQueue w))"


text \<open>Consecutive miss events for one peer, as the select of \<^verbatim>\<open>fPositiveHandler\<close>
  receives them: one per entry of \<open>es\<close>, the collaborators' answers at that turn.\<close>

definition misses :: "peer \<Rightarrow> env list \<Rightarrow> received list" where
  "misses p es = map (\<lambda>e. FromFPositives e p) es"

text \<open>The run of \<^verbatim>\<open>onMerkleBlock\<close> reaches line 87: the block passes the order check, its
  proof is valid, and the header commit reports a new block without reorg.\<close>

definition normal_path :: "env \<Rightarrow> peer \<Rightarrow> MsgMerkleBlock \<Rightarrow> SPVWallet \<Rightarrow> bool" where
  "normal_path e p m w =
     (order_check e p m w \<noteq> None \<and>
      (case checkMBlock e m of
         Inl err \<Rightarrow> False
       | Inr txids \<Rightarrow>
           (case CommitHeader e (Header m) of
              Inl err \<Rightarrow> False
            | Inr (newBlock, reorg, height) \<Rightarrow> newBlock \<and> reorg = None)))"

text \<open>What \<^verbatim>\<open>ChainState()\<close> answers at line 96 in such a run entered with the wallet \<open>w\<close>
  (the handler itself does not set the chain state on that path): the last value another
  goroutine has set, and the value at entry when none has.\<close>

definition ChainState_at_96 :: "env \<Rightarrow> SPVWallet \<Rightarrow> ChainState" where
  "ChainState_at_96 e w =
     (case set_by_others_96 e of
        Some st \<Rightarrow> st
      | None \<Rightarrow> (case set_by_others_93 e of Some st \<Rightarrow> st | None \<Rightarrow> chainState w))"

text \<open>The getdata requests of the transaction items of an inventory list, in order.\<close>

definition tx_requests :: "peer \<Rightarrow> InvVect list \<Rightarrow> event list" where
  "tx_requests p ivs =
     map (\<lambda>iv. QueueMessage p (MsgGetData [iv])) (filter (\<lambda>iv. inv_Type iv = InvTypeTx) ivs)"

text \<open>The calls the mutex is about: a message queued to a peer, and the calls into the
  header chain, its database and the transaction store.\<close>

fun outside_call :: "event \<Rightarrow> bool" where
  "outside_call (QueueMessage p msg) = True"
| "outside_call CallChainState = True"
| "outside_call (CallSetChainState st) = True"
| "outside_call CallDbHeight = True"
| "outside_call (CallDbPut r b) = True"
| "outside_call CallGetBlockLocatorHashes = True"
| "outside_call (CallCommitHeader h) = True"
| "outside_call (CallProcessReorg h) = True"
| "outside_call (CallGetAll b) = True"
| "outside_call (CallMarkAsDead h) = True"
| "outside_call (CallIngest m h) = True"
| "outside_call CallGimmeFilter = True"
| "outside_call CallGetPendingInv = True"
| "outside_call (CallTxnsGet h) = True"
| "outside_call ev = False"

text \<open>\<open>held_across h t\<close>: in the trace \<open>t\<close>, entered with the mutex held (\<open>h\<close>) or free,
  some such call is made while the mutex is held. \<open>held_after h t\<close>: the mutex is held
  when \<open>t\<close> ends.\<close>

fun held_across :: "bool \<Rightarrow> event list \<Rightarrow> bool" where
  "held_across h [] = False"
| "held_across h (Lock # t) = held_across True t"
| "held_across h (RLock # t) = held_across True t"
| "held_across h (Unlock # t) = held_across False t"
| "held_across h (RUnlock # t) = held_across False t"
| "held_across h (ev # t) = ((h \<and> outside_call ev) \<or> held_across h t)"

fun held_after :: "bool \<Rightarrow> event list \<Rightarrow> bool" where
  "held_after h [] = h"
| "held_after h (Lock # t) = held_after True t"
| "held_after h (RLock # t) = held_after True t"
| "held_after h (Unlock # t) = held_after False t"
| "held_after h (RUnlock # t) = held_after False t"
| "held_after h (ev # t) = held_after h t"

text \<open>The calls of a trace that are made while the mutex is held, and those made while
  it is free, in order.\<close>

fun held_calls :: "bool \<Rightarrow> event list \<Rightarrow> event list" where
  "held_calls h [] = []"
| "held_calls h (Lock # t) = held_calls True t"
| "held_calls h (RLock # t) = held_calls True t"
| "held_calls h (Unlock # t) = held_calls False t"
| "held_calls h (RUnlock # t) = held_calls False t"
| "held_calls h (ev # t) = (if h \<and> outside_call ev then ev # held_calls h t else held_calls h t)"

fun free_calls :: "bool \<Rightarrow> event list \<Rightarrow> event list" where
  "free_calls h [] = []"
| "free_calls h (Lock # t) = free_calls True t"
| "free_calls h (RLock # t) = free_calls True t"
| "free_calls h (Unlock # t) = free_calls False t"
| "free_calls h (RUnlock # t) = free_calls False t"
| "free_calls h (ev # t) =
     (if \<not> h \<and> outside_call ev then ev # free_calls h t else free_calls h t)"

definition short_sections :: "event list \<Rightarrow> bool" where
  "short_sections t = (\<not> held_across False t \<and> \<not> held_after False t)"

text \<open>The hashes handed to \<^verbatim>\<open>markAsDead\<close>, the filters queued to a peer, the miss
  events sent for a peer and the calls of \<^verbatim>\<open>GimmeFilter\<close> in a trace, in order.\<close>

fun marked :: "event list \<Rightarrow> hash list" where
  "marked [] = []"
| "marked (CallMarkAsDead h # t) = h # marked t"
| "marked (ev # t) = marked t"

fun filters_to :: "peer \<Rightarrow> event list \<Rightarrow> Filter list" where
  "filters_to p [] = []"
| "filters_to p (QueueMessage q (MsgFilterLoad f) # t) =
     (if q = p then f # filters_to p t else filters_to p t)"
| "filters_to p (ev # t) = filters_to p t"

fun filter_builds :: "event list \<Rightarrow> nat" where
  "filter_builds [] = 0"
| "filter_builds (CallGimmeFilter # t) = Suc (filter_builds t)"
| "filter_builds (ev # t) = filter_builds t"

text \<open>The rows the sweep selects, and what it hands to \<^verbatim>\<open>markAsDead\<close> for a row.\<close>

definition stale :: "env \<Rightarrow> Txn \<Rightarrow> bool" where
  "stale e t = (Height t = 0 \<and> Timestamp t + 7 * 24 * 3600 * 1000000000 < time_Now e)"

definition to_mark :: "env \<Rightarrow> Txn \<Rightarrow> hash list" where
  "to_mark e t =
     (if stale e t then (case NewHashFromStr e (Txid t) of Inl err \<Rightarrow> [] | Inr h \<Rightarrow> [h])
      else [])"

text \<open>What the sweep does for one row, as events: nothing for a row that is not stale; for
  a stale one the notice, then either the logged parse error or the call of
  \<^verbatim>\<open>markAsDead\<close>, with its error logged.\<close>

definition sweep_events :: "env \<Rightarrow> Txn \<Rightarrow> event list" where
  "sweep_events e t =
     (if stale e t then
        Log LNotice #
        (case NewHashFromStr e (Txid t) of
           Inl err \<Rightarrow> [Log LError]
         | Inr h \<Rightarrow> CallMarkAsDead h #
             (case markAsDead e h of Some err \<Rightarrow> [Log LError] | None \<Rightarrow> []))
      else [])"

text \<open>The inventory goroutine as it would be if a send on the closed queue were skipped
  (the reading of the specification, to compare \<open>onInv\<close> with).\<close>

fun onInv_skipping :: "env \<Rightarrow> peer \<Rightarrow> InvVect list \<Rightarrow> SPVWallet \<Rightarrow> SPVWallet result" where
  "onInv_skipping e p [] w = Done w"
| "onInv_skipping e p (iv # rest) w =
     (case inv_Type iv of
        InvTypeBlock \<Rightarrow>
          (let iv' = iv\<lparr>inv_Type := InvTypeFilteredBlock\<rparr>;
               w1 = emit (QueueMessage p (MsgGetData [iv'])) w;
               w2 = emit CallChainState w1 in
           if chainState w2 = SYNCING \<and> from_download_peer e p then
             (case chan_send (inv_Hash iv') (blockQueue w2) of
                Ok q \<Rightarrow> onInv_skipping e p rest (w2\<lparr>blockQueue := q\<rparr>)
              | Panics \<Rightarrow> onInv_skipping e p rest w2
              | Waits \<Rightarrow> Blocked w2)
           else onInv_skipping e p rest w2)
      | InvTypeTx \<Rightarrow> onInv_skipping e p rest (emit (QueueMessage p (MsgGetData [iv])) w)
      | InvTypeError \<Rightarrow> onInv_skipping e p rest w
      | InvTypeFilteredBlock \<Rightarrow> onInv_skipping e p rest w)"

subsection \<open>A concrete wallet, peer and collaborators\<close>

definition peer1 :: peer where
  "peer1 = \<lparr>ID = 1, LastBlock = 500\<rparr>"

definition wallet0 :: SPVWallet where
  "wallet0 = \<lparr>chainState = SYNCING, blockQueue = \<lparr>buf = [], closed = False, cap = 32\<rparr>,
     toDownload = Map.empty, fpAccumulator = Map.empty, trace = []\<rparr>"

definition block1 :: MsgMerkleBlock where
  "block1 = \<lparr>Header = BlockHeader 7 0, proof_data = 1\<rparr>"

definition tx1 :: MsgTx where
  "tx1 = MsgTx 9 0"

definition old_tx :: Txn where
  "old_tx = \<lparr>Txid = ''0a'', Height = 0, Timestamp = 0\<rparr>"

definition fresh_tx :: Txn where
  "fresh_tx = \<lparr>Txid = ''0b'', Height = 0, Timestamp = 6 * 24 * 3600 * 1000000000\<rparr>"

definition reorg1 :: StoredHeader where
  "reorg1 = \<lparr>sh_header = BlockHeader 7 0, sh_height = 300\<rparr>"

text \<open>Collaborators that answer without errors: the chain is at height 500, no peer
  has more, the header is new, nothing is pending, the clock is at day 8; no other
  goroutine sets the chain state, and the tracker takes a miss event at once.\<close>

definition env0 :: env where
  "env0 = \<lparr>DownloadPeer = Some peer1, dbHeight = 500, CheckForMoreBlocks = (\<lambda>h. False),
     GetBlockLocatorHashes = [7], GetPendingInv = (Some [], None), ConnectedPeers = [peer1],
     checkMBlock = (\<lambda>m. Inr [9]), CommitHeader = (\<lambda>h. Inr (True, None, 501)),
     processReorg = (\<lambda>h. None), GetAll = (\<lambda>b. Inr [old_tx, fresh_tx]),
     time_Now = 8 * 24 * 3600 * 1000000000,
     NewHashFromStr = (\<lambda>s. if s = ''0a'' then Inr 10 else if s = ''0b'' then Inr 11
                             else Inl (Error ''bad'')),
     markAsDead = (\<lambda>h. None), Ingest = (\<lambda>m h. (0, None)), GimmeFilter = Inr (Filter 1),
     TxnsGet = (\<lambda>h. Inl (Error ''none'')), set_by_others_93 = None, set_by_others_96 = None,
     send_fPositives = Ok ()\<rparr>"

section \<open>Properties\<close>

subsection \<open>Traces\<close>

lemma trace_emit [simp]: "trace (emit ev w) = trace w @ [ev]"
  by (simp add: emit_def)

lemma emit_frame [simp]:
  "chainState (emit ev w) = chainState w" "blockQueue (emit ev w) = blockQueue w"
  "toDownload (emit ev w) = toDownload w" "fpAccumulator (emit ev w) = fpAccumulator w"
  by (simp_all add: emit_def)

lemma marked_append [simp]: "marked (a @ b) = marked a @ marked b"
  by (induction a rule: marked.induct) auto

lemma filters_to_append [simp]: "filters_to p (a @ b) = filters_to p a @ filters_to p b"
  by (induction p a rule: filters_to.induct) auto

lemma filter_builds_append [simp]: "filter_builds (a @ b) = filter_builds a + filter_builds b"
  by (induction a rule: filter_builds.induct) auto

lemma held_after_append [simp]: "held_after h (a @ b) = held_after (held_after h a) b"
  by (induction h a rule: held_after.induct) auto

lemma held_across_append [simp]:
  "held_across h (a @ b) = (held_across h a \<or> held_across (held_after h a) b)"
  by (induction h a rule: held_across.induct) auto

lemma SetChainState_simps [simp]:
  "trace (SetChainState st w) = trace w @ [CallSetChainState st]"
  "chainState (SetChainState st w) = st"
  "blockQueue (SetChainState st w) = blockQueue w"
  "toDownload (SetChainState st w) = toDownload w"
  "fpAccumulator (SetChainState st w) = fpAccumulator w"
  by (simp_all add: SetChainState_def)

lemma others_set_simps [simp]:
  "trace (others_set c w) = trace w"
  "blockQueue (others_set c w) = blockQueue w"
  "toDownload (others_set c w) = toDownload w"
  "fpAccumulator (others_set c w) = fpAccumulator w"
  "chainState (others_set c w) = (case c of None \<Rightarrow> chainState w | Some st \<Rightarrow> st)"
  by (simp_all add: others_set_def split: option.splits)

lemma held_calls_append [simp]:
  "held_calls h (a @ b) = held_calls h a @ held_calls (held_after h a) b"
  by (induction h a rule: held_calls.induct) auto

lemma free_calls_append [simp]:
  "free_calls h (a @ b) = free_calls h a @ free_calls (held_after h a) b"
  by (induction h a rule: free_calls.induct) auto

subsection \<open>updateFilterAndSend\<close>

lemma updateFilterAndSend_frame [simp]:
  "chainState (updateFilterAndSend e p w) = chainState w"
  "blockQueue (updateFilterAndSend e p w) = blockQueue w"
  "toDownload (updateFilterAndSend e p w) = toDownload w"
  "fpAccumulator (updateFilterAndSend e p w) = fpAccumulator w"
  by (simp_all add: updateFilterAndSend_def Let_def split: sum.splits)

lemma trace_updateFilterAndSend:
  "trace (updateFilterAndSend e p w) = trace w @ CallGimmeFilter #
     (case GimmeFilter e of
        Inl err \<Rightarrow> [Log LError]
      | Inr f \<Rightarrow> [QueueMessage p (MsgFilterLoad f), Log LDebug])"
  by (simp add: updateFilterAndSend_def Let_def split: sum.splits)

subsection \<open>The false-positive counter\<close>

lemma small_counter: "c < 7 \<Longrightarrow> \<not> (7 :: int32) <s of_nat c + 1"
proof -
  assume "c < 7"
  then consider "c = 0" | "c = 1" | "c = 2" | "c = 3" | "c = 4" | "c = 5" | "c = 6"
    by linarith
  then show ?thesis by cases (simp_all add: word_sless_alt)
qed

lemma fPositive_below:
  assumes "map_get (fpAccumulator w) (ID p) = of_nat c" and "c < 7"
  shows "map_get (fpAccumulator (fPositive e p w)) (ID p) = of_nat (Suc c)"
    and "filter_builds (trace (fPositive e p w)) = filter_builds (trace w)"
    and "filters_to q (trace (fPositive e p w)) = filters_to q (trace w)"
  using assms small_counter [of c]
  by (simp_all add: fPositive_def Let_def map_get_def)

lemma fPositive_reset:
  assumes "7 <s map_get (fpAccumulator w) (ID p) + 1"
  shows "fpAccumulator (fPositive e p w) (ID p) = Some 0"
    and "trace (fPositive e p w) = trace w @ [RLock, RUnlock, CallGimmeFilter] @
           (case GimmeFilter e of
              Inl err \<Rightarrow> [Log LError]
            | Inr f \<Rightarrow> [QueueMessage p (MsgFilterLoad f), Log LDebug]) @
           [Log LDebug, Lock, Unlock]"
  using assms
  by (simp_all add: fPositive_def Let_def trace_updateFilterAndSend)

lemma fPositiveHandler_misses_append:
  "fPositiveHandler (misses p es @ rs) w =
     fPositiveHandler rs (state_of (fPositiveHandler (misses p es) w))"
  by (induction es arbitrary: w) (simp_all add: misses_def)

lemma misses_below:
  "map_get (fpAccumulator w) (ID p) = of_nat c \<Longrightarrow> c + length es \<le> 7 \<Longrightarrow>
     map_get (fpAccumulator (state_of (fPositiveHandler (misses p es) w))) (ID p)
       = of_nat (c + length es)
     \<and> filter_builds (trace (state_of (fPositiveHandler (misses p es) w)))
       = filter_builds (trace w)
     \<and> filters_to q (trace (state_of (fPositiveHandler (misses p es) w)))
       = filters_to q (trace w)"
proof (induction es arbitrary: w c)
  case Nil
  then show ?case by (simp add: misses_def)
next
  case (Cons e es)
  from Cons.prems have c: "c < 7" and len: "Suc c + length es \<le> 7" by simp_all
  note step = fPositive_below [OF Cons.prems(1) c, where e = e]
  from Cons.IH [OF step(1) len] step(2) step(3) [where q = q]
  show ?case by (simp add: misses_def)
qed


text \<open>C5, as amended. For a peer whose counter is 0, after seven consecutive miss events
  the counter is 7, \<^verbatim>\<open>GimmeFilter\<close> has not been called and no filter has been queued to
  the peer; the eighth miss calls \<^verbatim>\<open>GimmeFilter\<close> once and resets the counter to 0, and
  a filter is queued to the peer exactly when the transaction store builds one.\<close>

theorem eight_misses:
  assumes "map_get (fpAccumulator w) (ID p) = 0" and "length es = 7"
  shows "map_get (fpAccumulator (state_of (fPositiveHandler (misses p es) w))) (ID p) = 7
     \<and> filter_builds (trace (state_of (fPositiveHandler (misses p es) w)))
         = filter_builds (trace w)
     \<and> filters_to p (trace (state_of (fPositiveHandler (misses p es) w)))
         = filters_to p (trace w)
     \<and> map_get (fpAccumulator (state_of (fPositiveHandler (misses p (es @ [e8])) w))) (ID p) = 0
     \<and> filter_builds (trace (state_of (fPositiveHandler (misses p (es @ [e8])) w)))
         = Suc (filter_builds (trace w))
     \<and> filters_to p (trace (state_of (fPositiveHandler (misses p (es @ [e8])) w)))
         = filters_to p (trace w) @ (case GimmeFilter e8 of Inl err \<Rightarrow> [] | Inr f \<Rightarrow> [f])"
proof -
  let ?w7 = "state_of (fPositiveHandler (misses p es) w)"
  have start: "map_get (fpAccumulator w) (ID p) = of_nat 0" using assms(1) by simp
  have len: "0 + length es \<le> 7" using assms(2) by simp
  from misses_below [OF start len, of p] assms(2)
  have seven: "map_get (fpAccumulator ?w7) (ID p) = 7"
    and builds: "filter_builds (trace ?w7) = filter_builds (trace w)"
    and sent: "filters_to p (trace ?w7) = filters_to p (trace w)"
    by simp_all
  have over: "7 <s map_get (fpAccumulator ?w7) (ID p) + 1"
    by (simp add: seven word_sless_alt)
  have eighth: "state_of (fPositiveHandler (misses p (es @ [e8])) w) = fPositive e8 p ?w7"
    using fPositiveHandler_misses_append [of p es "misses p [e8]" w]
    by (simp add: misses_def)
  from fPositive_reset [OF over, of e8] builds sent
  have "map_get (fpAccumulator (fPositive e8 p ?w7)) (ID p) = 0"
    and "filter_builds (trace (fPositive e8 p ?w7)) = Suc (filter_builds (trace w))"
    and "filters_to p (trace (fPositive e8 p ?w7))
           = filters_to p (trace w) @ (case GimmeFilter e8 of Inl err \<Rightarrow> [] | Inr f \<Rightarrow> [f])"
    by (simp_all add: map_get_def split: sum.splits)
  with seven builds sent eighth show ?thesis by simp
qed

text \<open>Seven and eight misses for the concrete peer, starting from the empty accumulator.\<close>

theorem eight_misses_witness:
  "map_get (fpAccumulator wallet0) (ID peer1) = 0 \<and> length (replicate 7 env0) = 7
   \<and> map_get (fpAccumulator (state_of
         (fPositiveHandler (misses peer1 (replicate 7 env0)) wallet0))) (ID peer1) = 7
   \<and> filters_to peer1 (trace (state_of
         (fPositiveHandler (misses peer1 (replicate 7 env0)) wallet0))) = []
   \<and> map_get (fpAccumulator (state_of
         (fPositiveHandler (misses peer1 (replicate 7 env0 @ [env0])) wallet0))) (ID peer1) = 0
   \<and> filters_to peer1 (trace (state_of
         (fPositiveHandler (misses peer1 (replicate 7 env0 @ [env0])) wallet0))) = [Filter 1]"
proof -
  have 1: "map_get (fpAccumulator wallet0) (ID peer1) = 0"
    by (simp add: map_get_def wallet0_def)
  have 2: "length (replicate 7 env0) = 7" by simp
  have 3: "filters_to peer1 (trace wallet0) = []" by (simp add: wallet0_def)
  have 4: "GimmeFilter env0 = Inr (Filter 1)" by (simp add: env0_def)
  from eight_misses [OF 1 2, of env0] 1 2 show ?thesis
    by (simp only: 3 4 sum.case append_Nil simp_thms)
qed

text \<open>C5 as stated fails: when \<^verbatim>\<open>GimmeFilter\<close> returns an error, eight consecutive
  misses reset the counter and no filter is sent.\<close>

theorem eight_misses_no_filter:
  "filters_to peer1 (trace (state_of (fPositiveHandler
       (misses peer1 (replicate 8 (env0\<lparr>GimmeFilter := Inl (Error ''no filter'')\<rparr>)))
       wallet0))) = []
   \<and> fpAccumulator (state_of (fPositiveHandler
       (misses peer1 (replicate 8 (env0\<lparr>GimmeFilter := Inl (Error ''no filter'')\<rparr>)))
       wallet0)) (ID peer1) = Some 0"
  by (simp add: misses_def eval_nat_numeral fPositive_def map_get_def wallet0_def peer1_def
        env0_def Let_def updateFilterAndSend_def word_sless_alt)

text \<open>C9. When the incremented counter of a peer exceeds 7, the handler stores 0 for the
  peer whatever \<^verbatim>\<open>GimmeFilter\<close> answers: when it fails, the error is logged, nothing is
  queued to the peer, and the count is reset all the same.\<close>

theorem fPositive_resets_unconditionally:
  assumes "7 <s map_get (fpAccumulator w) (ID p) + 1"
  shows "fpAccumulator (fPositive e p w) (ID p) = Some 0
     \<and> trace (fPositive e p w) = trace w @ [RLock, RUnlock, CallGimmeFilter] @
         (case GimmeFilter e of
            Inl err \<Rightarrow> [Log LError]
          | Inr f \<Rightarrow> [QueueMessage p (MsgFilterLoad f), Log LDebug]) @
         [Log LDebug, Lock, Unlock]"
  using assms
  by (simp add: fPositive_def Let_def trace_updateFilterAndSend)

text \<open>The counter is 7 and the filter cannot be built.\<close>

theorem fPositive_resets_unconditionally_witness:
  "7 <s map_get (fpAccumulator (wallet0\<lparr>fpAccumulator := [1 \<mapsto> 7]\<rparr>)) (ID peer1) + 1
   \<and> fpAccumulator (fPositive (env0\<lparr>GimmeFilter := Inl (Error ''no filter'')\<rparr>) peer1
         (wallet0\<lparr>fpAccumulator := [1 \<mapsto> 7]\<rparr>)) (ID peer1) = Some 0
   \<and> trace (fPositive (env0\<lparr>GimmeFilter := Inl (Error ''no filter'')\<rparr>) peer1
         (wallet0\<lparr>fpAccumulator := [1 \<mapsto> 7]\<rparr>))
       = [RLock, RUnlock, CallGimmeFilter, Log LError, Log LDebug, Lock, Unlock]"
proof -
  have 1: "7 <s map_get (fpAccumulator (wallet0\<lparr>fpAccumulator := [1 \<mapsto> 7]\<rparr>)) (ID peer1) + 1"
    by (simp add: map_get_def peer1_def word_sless_alt)
  from fPositive_resets_unconditionally
         [OF 1, of "env0\<lparr>GimmeFilter := Inl (Error ''no filter'')\<rparr>"] 1
  show ?thesis by (simp add: wallet0_def)
qed

text \<open>C7, as amended. For every transaction the handler reads the height recorded for it
  (0 when there is none) and hands transaction and height to \<^verbatim>\<open>Ingest\<close>. When the store
  returns an error the handler logs it and returns: no miss event and no filter, whatever
  the hit count. Otherwise, with zero hits it queues no filter and makes one send of a miss
  event for the sending peer on \<^verbatim>\<open>w.fPositives\<close>: the event is emitted when the send
  completes, the handler waits there while nobody takes it, and a closed channel makes
  the send panic. With nonzero hits it sends no miss event and calls \<^verbatim>\<open>GimmeFilter\<close>,
  queueing the filter to that peer when one is built and only logging the error when
  not.\<close>

theorem onTx_hits:
  "onTx e p m w =
     (case snd (Ingest e m (map_get (toDownload w) (TxHash m))) of
        Some err \<Rightarrow>
          Done (w\<lparr>trace := trace w @
                  [RLock, RUnlock, CallIngest m (map_get (toDownload w) (TxHash m)),
                   Log LError]\<rparr>)
      | None \<Rightarrow>
          if fst (Ingest e m (map_get (toDownload w) (TxHash m))) = 0 then
            (case send_fPositives e of
               Ok u \<Rightarrow>
                 Done (w\<lparr>trace := trace w @
                         [RLock, RUnlock, CallIngest m (map_get (toDownload w) (TxHash m)),
                          Log LDebug, SendFPositives p]\<rparr>)
             | Waits \<Rightarrow>
                 Blocked (w\<lparr>trace := trace w @
                         [RLock, RUnlock, CallIngest m (map_get (toDownload w) (TxHash m)),
                          Log LDebug]\<rparr>)
             | Panics \<Rightarrow>
                 Panic (w\<lparr>trace := trace w @
                         [RLock, RUnlock, CallIngest m (map_get (toDownload w) (TxHash m)),
                          Log LDebug]\<rparr>))
          else
            Done (w\<lparr>trace := trace w @
                    [RLock, RUnlock, CallIngest m (map_get (toDownload w) (TxHash m)),
                     CallGimmeFilter] @
                    (case GimmeFilter e of
                       Inl err \<Rightarrow> [Log LError]
                     | Inr f \<Rightarrow> [QueueMessage p (MsgFilterLoad f), Log LDebug]) @
                    [Log LInfo]\<rparr>))"
  by (simp add: onTx_def Let_def emit_def updateFilterAndSend_def
        split: sum.splits option.splits chan_result.splits)

text \<open>No hits: one miss event. Two hits and a filter that builds: the filter is queued.\<close>

theorem onTx_hits_witness:
  "onTx env0 peer1 tx1 wallet0 =
     Done (wallet0\<lparr>trace := [RLock, RUnlock, CallIngest tx1 0, Log LDebug,
                              SendFPositives peer1]\<rparr>)
   \<and> onTx (env0\<lparr>Ingest := (\<lambda>m h. (2, None))\<rparr>) peer1 tx1 wallet0 =
       Done (wallet0\<lparr>trace := [RLock, RUnlock, CallIngest tx1 0, CallGimmeFilter,
                                QueueMessage peer1 (MsgFilterLoad (Filter 1)), Log LDebug,
                                Log LInfo]\<rparr>)"
  using onTx_hits [of env0 peer1 tx1 wallet0]
    onTx_hits [of "env0\<lparr>Ingest := (\<lambda>m h. (2, None))\<rparr>" peer1 tx1 wallet0]
  by (simp add: wallet0_def env0_def map_get_def)

text \<open>C7 as stated fails. With one hit and a failing \<^verbatim>\<open>GimmeFilter\<close> no filter is sent to
  the peer. When \<^verbatim>\<open>Ingest\<close> returns zero hits and an error, no miss event is sent. With
  zero hits and nobody receiving from \<^verbatim>\<open>w.fPositives\<close> the handler waits in the send and
  no miss event has been emitted; on a closed channel the send panics.\<close>

theorem onTx_hit_without_filter:
  "onTx (env0\<lparr>Ingest := (\<lambda>m h. (1, None)), GimmeFilter := Inl (Error ''no filter'')\<rparr>)
        peer1 tx1 wallet0
     = Done (wallet0\<lparr>trace := [RLock, RUnlock, CallIngest tx1 0, CallGimmeFilter, Log LError,
                               Log LInfo]\<rparr>)
   \<and> onTx (env0\<lparr>Ingest := (\<lambda>m h. (0, Some (Error ''db'')))\<rparr>) peer1 tx1 wallet0
     = Done (wallet0\<lparr>trace := [RLock, RUnlock, CallIngest tx1 0, Log LError]\<rparr>)
   \<and> onTx (env0\<lparr>send_fPositives := Waits\<rparr>) peer1 tx1 wallet0
     = Blocked (wallet0\<lparr>trace := [RLock, RUnlock, CallIngest tx1 0, Log LDebug]\<rparr>)
   \<and> onTx (env0\<lparr>send_fPositives := Panics\<rparr>) peer1 tx1 wallet0
     = Panic (wallet0\<lparr>trace := [RLock, RUnlock, CallIngest tx1 0, Log LDebug]\<rparr>)"
  by (simp add: onTx_def Let_def emit_def updateFilterAndSend_def wallet0_def env0_def
        map_get_def)

subsection \<open>The mutex\<close>

lemma short_append:
  "short_sections t \<Longrightarrow>
     short_sections (t @ u) = (\<not> held_across False u \<and> \<not> held_after False u)"
  by (simp add: short_sections_def)

lemma short_emit:
  "short_sections (trace w) \<Longrightarrow> ev \<notin> {Lock, RLock} \<Longrightarrow> short_sections (trace (emit ev w))"
  by (cases ev) (simp_all add: short_append)

lemma short_updateFilterAndSend:
  "short_sections (trace w) \<Longrightarrow> short_sections (trace (updateFilterAndSend e p w))"
  by (simp add: trace_updateFilterAndSend short_append split: sum.splits)

lemma short_queue_to_all:
  "short_sections (trace w) \<Longrightarrow> short_sections (trace (queue_to_all msg ps w))"
  by (induction ps arbitrary: w) (simp_all add: short_append)

lemma short_Rebroadcast:
  "short_sections (trace w) \<Longrightarrow> short_sections (trace (state_of (Rebroadcast e w)))"
  by (simp add: Rebroadcast_def Let_def short_queue_to_all short_append
        split: option.splits)

lemma short_record_txids:
  "short_sections (trace w) \<Longrightarrow> short_sections (trace (record_txids txids h w))"
  by (induction txids arbitrary: w) (simp_all add: short_append emit_def)

lemma short_sweep_one:
  "short_sections (trace w) \<Longrightarrow> short_sections (trace (sweep_one e t w))"
  by (simp add: sweep_one_def short_append Let_def split: sum.splits option.splits)

lemma short_sweep:
  "short_sections (trace w) \<Longrightarrow> short_sections (trace (sweep e ts w))"
  by (induction ts arbitrary: w) (simp_all add: short_sweep_one)

lemma short_after_commit:
  "short_sections (trace w) \<Longrightarrow> short_sections (trace (after_commit e p w))"
  by (simp add: after_commit_def Let_def short_sweep short_append split: sum.splits)

lemma short_process_block:
  assumes "short_sections (trace w)"
  shows "short_sections (trace (process_block e p m w))"
proof (cases "checkMBlock e m")
  case (Inl err)
  with assms show ?thesis by (simp add: process_block_def short_append)
next
  case (Inr txids)
  show ?thesis
  proof (cases "CommitHeader e (Header m)")
    case (Inl err)
    with Inr assms show ?thesis by (simp add: process_block_def short_append)
  next
    case commit: (Inr res)
    obtain newBlock reorg height where res: "res = (newBlock, reorg, height)"
      by (cases res) auto
    show ?thesis
    proof (cases reorg)
      case None
      with Inr commit res assms show ?thesis
        by (simp add: process_block_def Let_def short_after_commit short_record_txids short_append)
    next
      case (Some r)
      with Inr commit res assms show ?thesis
        by (simp add: process_block_def SetChainState_def Let_def short_append
              split: option.splits)
    qed
  qed
qed

lemma short_onMerkleBlock:
  assumes "short_sections (trace w)"
  shows "short_sections (trace (state_of (onMerkleBlock e p m w)))"
proof (cases "chan_recv (blockQueue w)")
  case (Ok hq)
  obtain h q' where "hq = (h, q')" by (cases hq) auto
  with Ok assms show ?thesis
    by (simp add: onMerkleBlock_def Let_def short_process_block short_append)
next
  case Waits
  with assms show ?thesis
    by (simp add: onMerkleBlock_def Let_def short_process_block short_append)
next
  case Panics
  with assms show ?thesis
    by (simp add: onMerkleBlock_def Let_def short_process_block short_append)
qed

lemma short_onTx:
  "short_sections (trace w) \<Longrightarrow> short_sections (trace (state_of (onTx e p m w)))"
  by (simp add: onTx_def Let_def short_append trace_updateFilterAndSend
        split: sum.splits option.splits chan_result.splits)

lemma short_onInv_loop:
  "short_sections (trace w) \<Longrightarrow> short_sections (trace (state_of (onInv_loop e p invs w)))"
proof (induction invs arbitrary: w)
  case Nil
  then show ?case by simp
next
  case (Cons iv invs)
  have step: "short_sections (trace (emit ev w))" if "ev \<notin> {Lock, RLock}" for ev
    using Cons.prems that by (rule short_emit)
  have two: "short_sections (trace (emit ev' (emit ev w)))"
    if "ev \<notin> {Lock, RLock}" and "ev' \<notin> {Lock, RLock}" for ev ev'
    using step [OF that(1)] that(2) by (rule short_emit)
  show ?case
  proof (cases "inv_Type iv")
    case InvTypeBlock
    let ?w2 = "emit CallChainState
                 (emit (QueueMessage p (MsgGetData [iv\<lparr>inv_Type := InvTypeFilteredBlock\<rparr>])) w)"
    have w2: "short_sections (trace ?w2)" by (rule two) simp_all
    then have w2q: "short_sections (trace (?w2\<lparr>blockQueue := q\<rparr>))" for q by simp
    from InvTypeBlock w2 Cons.IH [OF w2] Cons.IH [OF w2q] show ?thesis
      by (simp add: Let_def split: chan_result.splits)
  next
    case InvTypeTx
    with Cons.IH [OF step [of "QueueMessage p (MsgGetData [iv])"]] show ?thesis by simp
  next
    case InvTypeError
    with Cons.IH [OF Cons.prems] show ?thesis by simp
  next
    case InvTypeFilteredBlock
    with Cons.IH [OF Cons.prems] show ?thesis by simp
  qed
qed

lemma short_onInv:
  "short_sections (trace w) \<Longrightarrow> short_sections (trace (state_of (onInv e p invs w)))"
  using short_onInv_loop [of w e p invs]
  by (cases "onInv_loop e p invs w") (simp_all add: onInv_def short_append)

lemma short_onGetData_loop:
  "short_sections (trace w) \<Longrightarrow> short_sections (trace (onGetData_loop e p invs w))"
proof (induction invs arbitrary: w)
  case Nil
  then show ?case by simp
next
  case (Cons thing invs)
  show ?case
    using Cons.prems by (simp add: Let_def Cons.IH short_append split: sum.splits)
qed

lemma short_onGetData:
  "short_sections (trace w) \<Longrightarrow> short_sections (trace (onGetData e p invs w))"
  by (simp add: onGetData_def short_onGetData_loop short_append)

lemma short_fPositive:
  "short_sections (trace w) \<Longrightarrow> short_sections (trace (fPositive e p w))"
  by (simp add: fPositive_def Let_def short_append trace_updateFilterAndSend
        split: sum.splits)

lemma short_fPositiveHandler:
  "short_sections (trace w) \<Longrightarrow> short_sections (trace (state_of (fPositiveHandler rs w)))"
  by (induction rs w rule: fPositiveHandler.induct) (simp_all add: short_fPositive)



lemma across_queue_to_all:
  "held_across False (trace w) \<Longrightarrow> held_across False (trace (queue_to_all msg ps w))"
  by (induction ps arbitrary: w) simp_all

lemma across_Rebroadcast:
  "held_across False (trace w) \<Longrightarrow> held_across False (trace (state_of (Rebroadcast e w)))"
  by (simp add: Rebroadcast_def Let_def across_queue_to_all split: option.splits)

lemma across_startChainDownload_body:
  "held_across False (trace (state_of (startChainDownload_body e p (emit Lock w))))"
proof -
  let ?w5 = "SetChainState WAITING (emit (Log LInfo)
               (emit (CallCheckForMoreBlocks (dbHeight e))
                 (emit CallDbHeight (emit CallChainState (emit Lock w)))))"
  have "held_across False (trace ?w5)" by simp
  then have r: "held_across False (trace (state_of (Rebroadcast e ?w5)))"
    by (rule across_Rebroadcast)
  show ?thesis
  proof (cases "Rebroadcast e ?w5")
    case (Done w6)
    with r show ?thesis
      by (simp add: startChainDownload_body_def Let_def chan_close_def)
  next
    case (Panic w6)
    with r show ?thesis
      by (simp add: startChainDownload_body_def Let_def)
  next
    case (Blocked w6)
    with r show ?thesis
      by (simp add: startChainDownload_body_def Let_def)
  qed
qed

lemma across_startChainDownload:
  "held_across False (trace (state_of (startChainDownload e p w)))"
  using across_startChainDownload_body [of e p w]
  by (cases "startChainDownload_body e p (emit Lock w)") (simp_all add: startChainDownload_def)

lemma queue_to_all_eq:
  "queue_to_all msg ps w = w\<lparr>trace := trace w @ map (\<lambda>q. QueueMessage q msg) ps\<rparr>"
  by (induction ps arbitrary: w) (simp_all add: emit_def)

lemma sends_under_mutex [simp]:
  "held_calls True (map (\<lambda>q. QueueMessage q msg) ps) = map (\<lambda>q. QueueMessage q msg) ps"
  "free_calls True (map (\<lambda>q. QueueMessage q msg) ps) = []"
  "held_after h (map (\<lambda>q. QueueMessage q msg) ps) = h"
  by (induction ps) simp_all

lemma driver_calls:
  assumes "\<not> held_after False (trace w)"
  shows "free_calls False (trace (state_of (startChainDownload e p w)))
           = free_calls False (trace w)"
    and "held_calls False (trace (state_of (startChainDownload e p w)))
           = held_calls False (trace w) @ CallChainState #
             (if chainState w = SYNCING then
                CallDbHeight #
                (if LastBlock p \<le> dbHeight e then
                   (if CheckForMoreBlocks e (dbHeight e) then []
                    else CallSetChainState WAITING # CallGetPendingInv #
                      (case fst (GetPendingInv e) of
                         None \<Rightarrow> []
                       | Some invList \<Rightarrow>
                           if invList = [] then []
                           else map (\<lambda>q. QueueMessage q (MsgInv invList)) (ConnectedPeers e)))
                 else [CallGetBlockLocatorHashes,
                       QueueMessage p (MsgGetBlocks (GetBlockLocatorHashes e) maxHash)])
              else [])"
    and "\<not> held_after False (trace (state_of (startChainDownload e p w)))"
  using assms
  by (simp_all add: startChainDownload_def startChainDownload_body_def Rebroadcast_def
        queue_to_all_eq chan_close_def Let_def emit_def SetChainState_def
        split: option.splits)

text \<open>C8, as amended. Started with the mutex free, \<^verbatim>\<open>onMerkleBlock\<close>, \<^verbatim>\<open>onTx\<close>, the
  goroutine of \<^verbatim>\<open>onInv\<close>, \<^verbatim>\<open>onGetData\<close> and \<^verbatim>\<open>fPositiveHandler\<close> never queue a message to
  a peer nor call into the header chain or the transaction store while they hold the
  mutex, and they end with the mutex free. \<^verbatim>\<open>startChainDownload\<close> takes the mutex first
  and releases it in a deferred call: it makes none of its calls with the mutex free, and
  the calls it makes while it holds the mutex are all of them: the read of the chain
  state; when syncing, the read of the height; then either the locator hashes and the
  getblocks message queued to the peer, or, when the download is complete,
  \<^verbatim>\<open>SetChainState\<close>, \<^verbatim>\<open>GetPendingInv\<close> and every inv message \<^verbatim>\<open>Rebroadcast\<close> queues to the
  connected peers. It ends with the mutex free.\<close>

theorem mutex_sections:
  assumes "short_sections (trace w)"
  shows "short_sections (trace (state_of (onMerkleBlock e p m w)))
     \<and> short_sections (trace (state_of (onTx e p tx w)))
     \<and> short_sections (trace (state_of (onInv e p invList w)))
     \<and> short_sections (trace (onGetData e p invList w))
     \<and> short_sections (trace (state_of (fPositiveHandler rs w)))
     \<and> held_across False (trace (state_of (startChainDownload e p w)))
     \<and> free_calls False (trace (state_of (startChainDownload e p w)))
         = free_calls False (trace w)
     \<and> held_calls False (trace (state_of (startChainDownload e p w)))
         = held_calls False (trace w) @ CallChainState #
           (if chainState w = SYNCING then
              CallDbHeight #
              (if LastBlock p \<le> dbHeight e then
                 (if CheckForMoreBlocks e (dbHeight e) then []
                  else CallSetChainState WAITING # CallGetPendingInv #
                    (case fst (GetPendingInv e) of
                       None \<Rightarrow> []
                     | Some invList \<Rightarrow>
                         if invList = [] then []
                         else map (\<lambda>q. QueueMessage q (MsgInv invList)) (ConnectedPeers e)))
               else [CallGetBlockLocatorHashes,
                     QueueMessage p (MsgGetBlocks (GetBlockLocatorHashes e) maxHash)])
            else [])
     \<and> \<not> held_after False (trace (state_of (startChainDownload e p w)))"
proof -
  from assms have free: "\<not> held_after False (trace w)"
    by (simp add: short_sections_def)
  from assms driver_calls [OF free, of e p] show ?thesis
    by (simp add: short_onMerkleBlock short_onTx short_onInv short_onGetData
          short_fPositiveHandler across_startChainDownload)
qed

text \<open>A wallet in WAITING takes a new block (its ids are recorded and the sweep runs),
  a transaction, an inventory of a block and a transaction, a getdata request and a miss
  event; a syncing wallet completes the download with one transaction pending.\<close>

theorem mutex_sections_witness:
  "short_sections (trace (wallet0\<lparr>chainState := WAITING\<rparr>))
   \<and> trace (state_of (onMerkleBlock env0 peer1 block1 (wallet0\<lparr>chainState := WAITING\<rparr>)))
       = [CallChainState, CallCommitHeader (BlockHeader 7 0), Lock, Unlock, Log LDebug,
          CallChainState, CallChainState, CallGetAll False, Log LNotice, CallMarkAsDead 10]
   \<and> short_sections
        (trace (state_of (onMerkleBlock env0 peer1 block1 (wallet0\<lparr>chainState := WAITING\<rparr>))))
   \<and> short_sections (trace (state_of (onTx env0 peer1 tx1 (wallet0\<lparr>chainState := WAITING\<rparr>))))
   \<and> short_sections (trace (state_of (onInv env0 peer1
        [\<lparr>inv_Type = InvTypeBlock, inv_Hash = 3\<rparr>, \<lparr>inv_Type = InvTypeTx, inv_Hash = 4\<rparr>]
        (wallet0\<lparr>chainState := WAITING\<rparr>))))
   \<and> short_sections (trace (onGetData env0 peer1
        [\<lparr>inv_Type = InvTypeBlock, inv_Hash = 3\<rparr>, \<lparr>inv_Type = InvTypeTx, inv_Hash = 4\<rparr>]
        (wallet0\<lparr>chainState := WAITING\<rparr>)))
   \<and> short_sections (trace (state_of (fPositiveHandler (misses peer1 [env0])
        (wallet0\<lparr>chainState := WAITING\<rparr>))))
   \<and> short_sections (trace wallet0)
   \<and> free_calls False (trace (state_of (startChainDownload
        (env0\<lparr>GetPendingInv := (Some [\<lparr>inv_Type = InvTypeTx, inv_Hash = 4\<rparr>], None)\<rparr>)
        peer1 wallet0))) = []
   \<and> held_calls False (trace (state_of (startChainDownload
        (env0\<lparr>GetPendingInv := (Some [\<lparr>inv_Type = InvTypeTx, inv_Hash = 4\<rparr>], None)\<rparr>)
        peer1 wallet0)))
       = [CallChainState, CallDbHeight, CallSetChainState WAITING, CallGetPendingInv,
          QueueMessage peer1 (MsgInv [\<lparr>inv_Type = InvTypeTx, inv_Hash = 4\<rparr>])]"
proof -
  let ?w = "wallet0\<lparr>chainState := WAITING\<rparr>"
  let ?ivs = "[\<lparr>inv_Type = InvTypeBlock, inv_Hash = 3\<rparr>, \<lparr>inv_Type = InvTypeTx, inv_Hash = 4\<rparr>]"
  let ?e = "env0\<lparr>GetPendingInv := (Some [\<lparr>inv_Type = InvTypeTx, inv_Hash = 4\<rparr>], None)\<rparr>"
  have 1: "short_sections (trace ?w)" by (simp add: wallet0_def short_sections_def)
  have 2: "short_sections (trace wallet0)" by (simp add: wallet0_def short_sections_def)
  have 3: "trace (state_of (onMerkleBlock env0 peer1 block1 ?w))
       = [CallChainState, CallCommitHeader (BlockHeader 7 0), Lock, Unlock, Log LDebug,
          CallChainState, CallChainState, CallGetAll False, Log LNotice, CallMarkAsDead 10]"
    by (simp add: onMerkleBlock_def process_block_def after_commit_def sweep_one_def Let_def
          wallet0_def env0_def block1_def old_tx_def fresh_tx_def MAX_UNCONFIRMED_TIME_def
          others_set_def)
  have 4: "free_calls False (trace wallet0) = []" "held_calls False (trace wallet0) = []"
    by (simp_all add: wallet0_def)
  have 5: "chainState wallet0 = SYNCING" "LastBlock peer1 \<le> dbHeight ?e"
    "\<not> CheckForMoreBlocks ?e (dbHeight ?e)"
    "fst (GetPendingInv ?e) = Some [\<lparr>inv_Type = InvTypeTx, inv_Hash = 4\<rparr>]"
    "ConnectedPeers ?e = [peer1]"
    by (simp_all add: wallet0_def env0_def peer1_def)
  from mutex_sections [OF 1, of env0 peer1 block1 tx1 ?ivs "misses peer1 [env0]"]
    mutex_sections [OF 2, of ?e peer1 block1 tx1 ?ivs "[]"] 1 2 3
  show ?thesis
    by (simp only: 4 5 simp_thms if_True if_False option.case list.simps append_Nil)
qed

text \<open>C8 as stated fails: \<^verbatim>\<open>startChainDownload\<close> reads the chain state and the height,
  asks for the locator hashes and queues the getblocks message to the peer, all between
  \<^verbatim>\<open>Lock\<close> and \<^verbatim>\<open>Unlock\<close>.\<close>

theorem startChainDownload_holds_mutex:
  "trace (state_of (startChainDownload (env0\<lparr>dbHeight := 100\<rparr>) peer1 wallet0))
     = [Lock, CallChainState, CallDbHeight, CallGetBlockLocatorHashes,
        QueueMessage peer1 (MsgGetBlocks [7] 0), Unlock]
   \<and> \<not> short_sections
         (trace (state_of (startChainDownload (env0\<lparr>dbHeight := 100\<rparr>) peer1 wallet0)))"
  by (simp add: startChainDownload_def startChainDownload_body_def Let_def wallet0_def
        env0_def peer1_def maxHash_def short_sections_def)

subsection \<open>The block queue after it is closed\<close>

lemma onInv_loop_closed:
  "closed (blockQueue w) \<Longrightarrow>
     \<exists>w'. (onInv_loop e p invs w = Done w' \<or> onInv_loop e p invs w = Panic w')
        \<and> blockQueue w' = blockQueue w \<and> chainState w' = chainState w
        \<and> toDownload w' = toDownload w \<and> fpAccumulator w' = fpAccumulator w"
proof (induction invs arbitrary: w)
  case Nil
  show ?case by simp
next
  case (Cons iv invs)
  show ?case
  proof (cases "inv_Type iv")
    case InvTypeBlock
    let ?w2 = "emit CallChainState
                 (emit (QueueMessage p (MsgGetData [iv\<lparr>inv_Type := InvTypeFilteredBlock\<rparr>])) w)"
    have c2: "closed (blockQueue ?w2)" using Cons.prems by simp
    show ?thesis
    proof (cases "chainState w = SYNCING \<and> from_download_peer e p")
      case True
      with InvTypeBlock Cons.prems have "onInv_loop e p (iv # invs) w = Panic ?w2"
        by (simp add: Let_def chan_send_def)
      then show ?thesis by simp
    next
      case False
      with InvTypeBlock have "onInv_loop e p (iv # invs) w = onInv_loop e p invs ?w2"
        by (auto simp: Let_def)
      with Cons.IH [OF c2] show ?thesis by simp
    qed
  next
    case InvTypeTx
    let ?w1 = "emit (QueueMessage p (MsgGetData [iv])) w"
    have "closed (blockQueue ?w1)" using Cons.prems by simp
    from Cons.IH [OF this] InvTypeTx show ?thesis by simp
  next
    case InvTypeError
    with Cons.IH [OF Cons.prems] show ?thesis by simp
  next
    case InvTypeFilteredBlock
    with Cons.IH [OF Cons.prems] show ?thesis by simp
  qed
qed

lemma onInv_loop_before_block:
  "list_all (\<lambda>iv. inv_Type iv \<noteq> InvTypeBlock) pre \<Longrightarrow>
     onInv_loop e p (pre @ rest) w =
       onInv_loop e p rest (w\<lparr>trace := trace w @ tx_requests p pre\<rparr>)"
proof (induction pre arbitrary: w)
  case Nil
  show ?case by (simp add: tx_requests_def)
next
  case (Cons iv pre)
  from Cons.prems have rest: "list_all (\<lambda>iv. inv_Type iv \<noteq> InvTypeBlock) pre"
    and iv: "inv_Type iv \<noteq> InvTypeBlock"
    by simp_all
  from iv show ?case
    by (cases "inv_Type iv") (simp_all add: Cons.IH [OF rest] tx_requests_def emit_def)
qed

text \<open>C4, as amended. A send on the closed block queue panics; the goroutine's deferred
  function recovers the panic and logs it. So with the queue closed, the inventory
  goroutine always returns, and it leaves the queue (still closed, same contents), the
  chain state and both maps as they were. But the send is not skipped. Wherever the first
  block item stands in the inventory, when the wallet is syncing and the sender is the
  download peer the goroutine requests the transaction items before it, queues the
  getdata request of that block, panics in the send and ends with the logged panic:
  whatever follows that item in the message is not requested. (The queue is closed while
  the chain state is SYNCING after a reorg that follows the end of the first sync.)\<close>

theorem onInv_after_close:
  assumes "closed (blockQueue w)"
  shows "(\<exists>w'. onInv e p invList w = Done w'
            \<and> blockQueue w' = blockQueue w \<and> chainState w' = chainState w
            \<and> toDownload w' = toDownload w \<and> fpAccumulator w' = fpAccumulator w)
     \<and> (chainState w = SYNCING \<and> from_download_peer e p
          \<and> list_all (\<lambda>iv. inv_Type iv \<noteq> InvTypeBlock) pre \<longrightarrow>
          onInv e p (pre @ \<lparr>inv_Type = InvTypeBlock, inv_Hash = h\<rparr> # rest) w =
            Done (w\<lparr>trace := trace w @ tx_requests p pre @
                    [QueueMessage p (MsgGetData [\<lparr>inv_Type = InvTypeFilteredBlock, inv_Hash = h\<rparr>]),
                     CallChainState, Log LError]\<rparr>))"
proof
  from onInv_loop_closed [OF assms, of e p invList] obtain w'
    where r: "onInv_loop e p invList w = Done w' \<or> onInv_loop e p invList w = Panic w'"
      and f: "blockQueue w' = blockQueue w" "chainState w' = chainState w"
        "toDownload w' = toDownload w" "fpAccumulator w' = fpAccumulator w"
    by blast
  from r f show "\<exists>w'. onInv e p invList w = Done w'
            \<and> blockQueue w' = blockQueue w \<and> chainState w' = chainState w
            \<and> toDownload w' = toDownload w \<and> fpAccumulator w' = fpAccumulator w"
    by (auto simp: onInv_def)
next
  show "chainState w = SYNCING \<and> from_download_peer e p
          \<and> list_all (\<lambda>iv. inv_Type iv \<noteq> InvTypeBlock) pre \<longrightarrow>
          onInv e p (pre @ \<lparr>inv_Type = InvTypeBlock, inv_Hash = h\<rparr> # rest) w =
            Done (w\<lparr>trace := trace w @ tx_requests p pre @
                    [QueueMessage p (MsgGetData [\<lparr>inv_Type = InvTypeFilteredBlock, inv_Hash = h\<rparr>]),
                     CallChainState, Log LError]\<rparr>)"
    using assms
    by (simp add: onInv_def onInv_loop_before_block Let_def chan_send_def emit_def)
qed

text \<open>A closed queue in a syncing wallet; the inventory holds a transaction, a block and
  another transaction: the first transaction and the block are requested, the second
  transaction is not.\<close>

theorem onInv_after_close_witness:
  "closed (blockQueue (wallet0\<lparr>blockQueue := \<lparr>buf = [], closed = True, cap = 32\<rparr>\<rparr>))
   \<and> chainState (wallet0\<lparr>blockQueue := \<lparr>buf = [], closed = True, cap = 32\<rparr>\<rparr>) = SYNCING
   \<and> from_download_peer env0 peer1
   \<and> list_all (\<lambda>iv. inv_Type iv \<noteq> InvTypeBlock) [\<lparr>inv_Type = InvTypeTx, inv_Hash = 4\<rparr>]
   \<and> onInv env0 peer1
        [\<lparr>inv_Type = InvTypeTx, inv_Hash = 4\<rparr>, \<lparr>inv_Type = InvTypeBlock, inv_Hash = 3\<rparr>,
         \<lparr>inv_Type = InvTypeTx, inv_Hash = 5\<rparr>]
        (wallet0\<lparr>blockQueue := \<lparr>buf = [], closed = True, cap = 32\<rparr>\<rparr>)
       = Done (wallet0\<lparr>blockQueue := \<lparr>buf = [], closed = True, cap = 32\<rparr>,
                 trace := [QueueMessage peer1 (MsgGetData [\<lparr>inv_Type = InvTypeTx, inv_Hash = 4\<rparr>]),
                           QueueMessage peer1
                             (MsgGetData [\<lparr>inv_Type = InvTypeFilteredBlock, inv_Hash = 3\<rparr>]),
                           CallChainState, Log LError]\<rparr>)"
proof -
  let ?w = "wallet0\<lparr>blockQueue := \<lparr>buf = [], closed = True, cap = 32\<rparr>\<rparr>"
  have 1: "closed (blockQueue ?w)" by simp
  have 2: "chainState ?w = SYNCING" by (simp add: wallet0_def)
  have 3: "from_download_peer env0 peer1" by (simp add: from_download_peer_def env0_def)
  have 4: "list_all (\<lambda>iv. inv_Type iv \<noteq> InvTypeBlock) [\<lparr>inv_Type = InvTypeTx, inv_Hash = 4\<rparr>]"
    by simp
  from onInv_after_close [OF 1, of env0 peer1 "[]" "[\<lparr>inv_Type = InvTypeTx, inv_Hash = 4\<rparr>]"
      3 "[\<lparr>inv_Type = InvTypeTx, inv_Hash = 5\<rparr>]"]
    1 2 3 4 show ?thesis
    by (simp add: wallet0_def tx_requests_def)
qed

text \<open>The state in question is reached: the sync completes, which closes the queue, and a
  later block reports a reorg, which sets the chain state back to SYNCING.\<close>

lemma closed_while_syncing:
  "chainState (state_of (onMerkleBlock
       (env0\<lparr>CommitHeader := (\<lambda>h. Inr (True, Some reorg1, 311))\<rparr>) peer1 block1
       (state_of (startChainDownload env0 peer1 wallet0)))) = SYNCING
   \<and> closed (blockQueue (state_of (onMerkleBlock
       (env0\<lparr>CommitHeader := (\<lambda>h. Inr (True, Some reorg1, 311))\<rparr>) peer1 block1
       (state_of (startChainDownload env0 peer1 wallet0)))))"
  by (simp add: startChainDownload_def startChainDownload_body_def Rebroadcast_def
        chan_close_def onMerkleBlock_def process_block_def Let_def wallet0_def env0_def
        peer1_def)

text \<open>C4 as stated fails: the send faults (the loop ends in a panic), and the run differs
  from one in which the send is skipped: the transaction that follows the block in the
  inventory is never requested.\<close>

theorem onInv_push_after_close_aborts:
  "onInv_loop env0 peer1
      [\<lparr>inv_Type = InvTypeTx, inv_Hash = 4\<rparr>, \<lparr>inv_Type = InvTypeBlock, inv_Hash = 3\<rparr>,
       \<lparr>inv_Type = InvTypeTx, inv_Hash = 5\<rparr>]
      (wallet0\<lparr>blockQueue := \<lparr>buf = [], closed = True, cap = 32\<rparr>\<rparr>)
     = Panic (wallet0\<lparr>blockQueue := \<lparr>buf = [], closed = True, cap = 32\<rparr>,
                trace := [QueueMessage peer1 (MsgGetData [\<lparr>inv_Type = InvTypeTx, inv_Hash = 4\<rparr>]),
                          QueueMessage peer1
                            (MsgGetData [\<lparr>inv_Type = InvTypeFilteredBlock, inv_Hash = 3\<rparr>]),
                          CallChainState]\<rparr>)
   \<and> trace (state_of (onInv env0 peer1
      [\<lparr>inv_Type = InvTypeTx, inv_Hash = 4\<rparr>, \<lparr>inv_Type = InvTypeBlock, inv_Hash = 3\<rparr>,
       \<lparr>inv_Type = InvTypeTx, inv_Hash = 5\<rparr>]
      (wallet0\<lparr>blockQueue := \<lparr>buf = [], closed = True, cap = 32\<rparr>\<rparr>)))
     = [QueueMessage peer1 (MsgGetData [\<lparr>inv_Type = InvTypeTx, inv_Hash = 4\<rparr>]),
        QueueMessage peer1 (MsgGetData [\<lparr>inv_Type = InvTypeFilteredBlock, inv_Hash = 3\<rparr>]),
        CallChainState, Log LError]
   \<and> trace (state_of (onInv_skipping env0 peer1
      [\<lparr>inv_Type = InvTypeTx, inv_Hash = 4\<rparr>, \<lparr>inv_Type = InvTypeBlock, inv_Hash = 3\<rparr>,
       \<lparr>inv_Type = InvTypeTx, inv_Hash = 5\<rparr>]
      (wallet0\<lparr>blockQueue := \<lparr>buf = [], closed = True, cap = 32\<rparr>\<rparr>)))
     = [QueueMessage peer1 (MsgGetData [\<lparr>inv_Type = InvTypeTx, inv_Hash = 4\<rparr>]),
        QueueMessage peer1 (MsgGetData [\<lparr>inv_Type = InvTypeFilteredBlock, inv_Hash = 3\<rparr>]),
        CallChainState,
        QueueMessage peer1 (MsgGetData [\<lparr>inv_Type = InvTypeTx, inv_Hash = 5\<rparr>])]"
  by (simp add: onInv_def Let_def chan_send_def emit_def wallet0_def env0_def
        from_download_peer_def)

subsection \<open>startChainDownload\<close>

lemma queue_to_all_frame [simp]:
  "chainState (queue_to_all msg ps w) = chainState w"
  "blockQueue (queue_to_all msg ps w) = blockQueue w"
  "toDownload (queue_to_all msg ps w) = toDownload w"
  "fpAccumulator (queue_to_all msg ps w) = fpAccumulator w"
  by (induction ps arbitrary: w) simp_all

lemma queue_to_all_keeps: "set (trace w) \<subseteq> set (trace (queue_to_all msg ps w))"
proof (induction ps arbitrary: w)
  case Nil
  show ?case by simp
next
  case (Cons q ps)
  from Cons [of "emit (QueueMessage q msg) w"] show ?case by simp
qed

lemma Rebroadcast_returns:
  assumes "fst (GetPendingInv e) = Some invList"
  shows "\<exists>w'. Rebroadcast e w = Done w' \<and> chainState w' = chainState w
           \<and> blockQueue w' = blockQueue w \<and> toDownload w' = toDownload w
           \<and> fpAccumulator w' = fpAccumulator w
           \<and> insert CallGetPendingInv (set (trace w)) \<subseteq> set (trace w')"
  using assms
    queue_to_all_keeps [of "emit CallConnectedPeers (emit CallGetPendingInv w)"
      "MsgInv invList" "ConnectedPeers e"]
    queue_to_all_keeps [of "emit CallConnectedPeers (emit (Log LError) (emit CallGetPendingInv w))"
      "MsgInv invList" "ConnectedPeers e"]
  by (auto simp: Rebroadcast_def Let_def split: option.splits)

lemma startChainDownload_complete:
  assumes "chainState w = SYNCING" and "LastBlock p \<le> dbHeight e"
    and "\<not> CheckForMoreBlocks e (dbHeight e)"
    and "fst (GetPendingInv e) = Some invList"
  shows "\<exists>w'. startChainDownload e p w = Done w' \<and> chainState w' = WAITING
           \<and> closed (blockQueue w') \<and> buf (blockQueue w') = buf (blockQueue w)
           \<and> toDownload w' = toDownload w \<and> fpAccumulator w' = fpAccumulator w
           \<and> CallSetChainState WAITING \<in> set (trace w')
           \<and> CallGetPendingInv \<in> set (trace w')"
proof -
  let ?w5 = "SetChainState WAITING (emit (Log LInfo)
               (emit (CallCheckForMoreBlocks (dbHeight e))
                 (emit CallDbHeight (emit CallChainState (emit Lock w)))))"
  from Rebroadcast_returns [OF assms(4), of ?w5] obtain w6
    where r: "Rebroadcast e ?w5 = Done w6" and f: "chainState w6 = WAITING"
      "blockQueue w6 = blockQueue w" "toDownload w6 = toDownload w"
      "fpAccumulator w6 = fpAccumulator w"
      and t: "insert CallGetPendingInv (set (trace ?w5)) \<subseteq> set (trace w6)"
    by auto
  from t have "CallSetChainState WAITING \<in> set (trace w6)"
    and "CallGetPendingInv \<in> set (trace w6)"
    by auto
  with r f assms(1-3) show ?thesis
    by (simp add: startChainDownload_def startChainDownload_body_def Let_def chan_close_def)
qed

lemma startChainDownload_more_blocks:
  assumes "chainState w = SYNCING" and "LastBlock p \<le> dbHeight e"
    and "CheckForMoreBlocks e (dbHeight e)"
  shows "startChainDownload e p w =
           Done (w\<lparr>trace := trace w @ [Lock, CallChainState, CallDbHeight,
                   CallCheckForMoreBlocks (dbHeight e), Unlock]\<rparr>)"
  using assms
  by (simp add: startChainDownload_def startChainDownload_body_def Let_def emit_def)

lemma startChainDownload_nil_message:
  assumes "chainState w = SYNCING" and "LastBlock p \<le> dbHeight e"
    and "\<not> CheckForMoreBlocks e (dbHeight e)"
    and "fst (GetPendingInv e) = None"
  shows "startChainDownload e p w =
           Done (w\<lparr>chainState := WAITING,
                   trace := trace w @ [Lock, CallChainState, CallDbHeight,
                     CallCheckForMoreBlocks (dbHeight e), Log LInfo, CallSetChainState WAITING,
                     CallGetPendingInv] @
                     (case snd (GetPendingInv e) of None \<Rightarrow> [] | Some err \<Rightarrow> [Log LError]) @
                     [Unlock, Log LError]\<rparr>)"
  using assms
  by (simp add: startChainDownload_def startChainDownload_body_def Rebroadcast_def Let_def
        emit_def SetChainState_def split: option.splits)

text \<open>C3. The claim: when \<^verbatim>\<open>startChainDownload\<close> runs while SYNCING, the local height has
  reached the peer's and no peer has more blocks, the chain state becomes WAITING,
  \<^verbatim>\<open>Rebroadcast\<close> is called and the block queue is closed. The code, where
  \<^verbatim>\<open>GetPendingInv\<close> fails and returns no message: \<^verbatim>\<open>Rebroadcast\<close> logs the error, reads
  the list of the nil message and panics; the deferred functions release the mutex and
  log the panic, and \<^verbatim>\<open>close(w.blockQueue)\<close> is never reached. The chain state is
  WAITING and the queue is still open.\<close>

theorem startChainDownload_rebroadcast_panics:
  "startChainDownload (env0\<lparr>GetPendingInv := (None, Some (Error ''db''))\<rparr>) peer1 wallet0
     = Done (wallet0\<lparr>chainState := WAITING,
               trace := [Lock, CallChainState, CallDbHeight, CallCheckForMoreBlocks 500,
                         Log LInfo, CallSetChainState WAITING, CallGetPendingInv, Log LError,
                         Unlock, Log LError]\<rparr>)
   \<and> closed (blockQueue (state_of (startChainDownload
         (env0\<lparr>GetPendingInv := (None, Some (Error ''db''))\<rparr>) peer1 wallet0))) = False"
  by (simp add: startChainDownload_def startChainDownload_body_def Rebroadcast_def Let_def
        emit_def SetChainState_def wallet0_def env0_def peer1_def)

subsection \<open>onMerkleBlock\<close>

text \<open>C1. While the chain state is SYNCING and the sender is the download peer, a merkle
  block whose header hash differs from the hash received from the block queue gets the
  peer disconnected and the handler returns at once: no proof is checked, no header is
  committed, and of the wallet only the queue changes, by the entry that was taken (the
  trace gains the read of the chain state, the error line and the disconnect).\<close>

theorem onMerkleBlock_out_of_order:
  assumes "chainState w = SYNCING" and "from_download_peer e p"
    and "chan_recv (blockQueue w) = Ok (queueHash, q)"
    and "BlockHash (Header m) \<noteq> queueHash"
  shows "onMerkleBlock e p m w =
           Done (w\<lparr>blockQueue := q,
                   trace := trace w @ [CallChainState, Log LError, Disconnect p]\<rparr>)
         \<and> buf q = drop 1 (buf (blockQueue w)) \<and> closed q = closed (blockQueue w)
         \<and> cap q = cap (blockQueue w)"
  using assms
  by (auto simp: onMerkleBlock_def emit_def Let_def chan_recv_def split: list.splits if_splits)

text \<open>The queue expects 5 then 6 and the block's hash is 7.\<close>

theorem onMerkleBlock_out_of_order_witness:
  "chainState (wallet0\<lparr>blockQueue := \<lparr>buf = [5, 6], closed = False, cap = 32\<rparr>\<rparr>) = SYNCING
   \<and> from_download_peer env0 peer1
   \<and> chan_recv (blockQueue (wallet0\<lparr>blockQueue := \<lparr>buf = [5, 6], closed = False, cap = 32\<rparr>\<rparr>))
       = Ok (5, \<lparr>buf = [6], closed = False, cap = 32\<rparr>)
   \<and> BlockHash (Header block1) \<noteq> 5
   \<and> onMerkleBlock env0 peer1 block1
        (wallet0\<lparr>blockQueue := \<lparr>buf = [5, 6], closed = False, cap = 32\<rparr>\<rparr>)
       = Done (wallet0\<lparr>blockQueue := \<lparr>buf = [6], closed = False, cap = 32\<rparr>,
                 trace := [CallChainState, Log LError, Disconnect peer1]\<rparr>)"
proof -
  let ?w = "wallet0\<lparr>blockQueue := \<lparr>buf = [5, 6], closed = False, cap = 32\<rparr>\<rparr>"
  have 1: "chainState ?w = SYNCING" by (simp add: wallet0_def)
  have 2: "from_download_peer env0 peer1" by (simp add: from_download_peer_def env0_def)
  have 3: "chan_recv (blockQueue ?w) = Ok (5, \<lparr>buf = [6], closed = False, cap = 32\<rparr>)"
    by (simp add: chan_recv_def)
  have 4: "BlockHash (Header block1) \<noteq> 5" by (simp add: block1_def)
  from onMerkleBlock_out_of_order [OF 1 2 3 4] 1 2 3 4 show ?thesis
    by (simp add: wallet0_def)
qed

text \<open>C2, as amended. When a block passes the order check and the proof validation and
  the header commit reports a new block with a reorg descriptor \<open>r\<close>, the handler asks the
  transaction store to roll back from the descriptor's height (\<^verbatim>\<open>processReorg\<close>), as a
  best effort: when the store returns an error the handler logs it and goes on all the
  same. It then sets the chain state to SYNCING, hands the descriptor to the header
  database (\<^verbatim>\<open>Put(*reorg, true)\<close>) and starts \<^verbatim>\<open>startChainDownload\<close> for the same peer in
  a goroutine, in this order, and returns: the rollback is requested before the sync is
  restarted, and \<open>toDownload\<close> is unchanged, so none of the block's matched ids is
  recorded.\<close>

theorem onMerkleBlock_reorg:
  assumes "order_check e p m w = Some q"
    and "checkMBlock e m = Inr txids"
    and "CommitHeader e (Header m) = Inr (True, Some r, height)"
  shows "onMerkleBlock e p m w =
           Done (w\<lparr>chainState := SYNCING, blockQueue := q,
                   trace := trace w @
                     [CallChainState, CallCommitHeader (Header m), CallProcessReorg (sh_height r)] @
                     (case processReorg e (sh_height r) of None \<Rightarrow> [] | Some err \<Rightarrow> [Log LError]) @
                     [CallSetChainState SYNCING, CallDbPut r True, Go_startChainDownload p]\<rparr>)"
  using assms
  by (auto simp: onMerkleBlock_def order_check_def process_block_def emit_def Let_def
        SetChainState_def split: chan_result.splits if_splits option.splits)

text \<open>A reorg at height 300 reported while the wallet is WAITING.\<close>

theorem onMerkleBlock_reorg_witness:
  "order_check (env0\<lparr>CommitHeader := (\<lambda>h. Inr (True, Some reorg1, 311))\<rparr>) peer1 block1
       (wallet0\<lparr>chainState := WAITING\<rparr>) = Some (blockQueue wallet0)
   \<and> checkMBlock (env0\<lparr>CommitHeader := (\<lambda>h. Inr (True, Some reorg1, 311))\<rparr>) block1 = Inr [9]
   \<and> CommitHeader (env0\<lparr>CommitHeader := (\<lambda>h. Inr (True, Some reorg1, 311))\<rparr>) (Header block1)
       = Inr (True, Some reorg1, 311)
   \<and> onMerkleBlock (env0\<lparr>CommitHeader := (\<lambda>h. Inr (True, Some reorg1, 311))\<rparr>) peer1 block1
       (wallet0\<lparr>chainState := WAITING\<rparr>)
       = Done (wallet0\<lparr>trace := [CallChainState, CallCommitHeader (BlockHeader 7 0),
                 CallProcessReorg 300, CallSetChainState SYNCING, CallDbPut reorg1 True,
                 Go_startChainDownload peer1]\<rparr>)"
proof -
  let ?e = "env0\<lparr>CommitHeader := (\<lambda>h. Inr (True, Some reorg1, 311))\<rparr>"
  let ?w = "wallet0\<lparr>chainState := WAITING\<rparr>"
  have 1: "order_check ?e peer1 block1 ?w = Some (blockQueue wallet0)"
    by (simp add: order_check_def)
  have 2: "checkMBlock ?e block1 = Inr [9]" by (simp add: env0_def)
  have 3: "CommitHeader ?e (Header block1) = Inr (True, Some reorg1, 311)" by simp
  from onMerkleBlock_reorg [OF 1 2 3] 1 2 3 show ?thesis
    by (simp add: wallet0_def env0_def block1_def reorg1_def)
qed

text \<open>C2 as stated fails: when \<^verbatim>\<open>processReorg\<close> returns an error nothing has been rolled
  back, the error is logged, and the handler goes on to set SYNCING, store the descriptor
  and restart the download.\<close>

theorem onMerkleBlock_reorg_rollback_fails:
  "onMerkleBlock (env0\<lparr>CommitHeader := (\<lambda>h. Inr (True, Some reorg1, 311)),
                       processReorg := (\<lambda>h. Some (Error ''rollback failed''))\<rparr>)
       peer1 block1 (wallet0\<lparr>chainState := WAITING\<rparr>)
     = Done (wallet0\<lparr>trace := [CallChainState, CallCommitHeader (BlockHeader 7 0),
               CallProcessReorg 300, Log LError, CallSetChainState SYNCING,
               CallDbPut reorg1 True, Go_startChainDownload peer1]\<rparr>)"
  by (simp add: onMerkleBlock_def process_block_def Let_def emit_def SetChainState_def
        wallet0_def env0_def block1_def reorg1_def)




subsection \<open>The staleness sweep\<close>

lemma marked_sweep_one: "marked (trace (sweep_one e t w)) = marked (trace w) @ to_mark e t"
  by (simp add: sweep_one_def to_mark_def stale_def MAX_UNCONFIRMED_TIME_def Let_def
        split: sum.splits option.splits)

lemma marked_sweep: "marked (trace (sweep e ts w)) = marked (trace w) @ concat (map (to_mark e) ts)"
  by (induction ts arbitrary: w) (simp_all add: marked_sweep_one)

lemma trace_sweep_one: "trace (sweep_one e t w) = trace w @ sweep_events e t"
  by (simp add: sweep_one_def sweep_events_def stale_def MAX_UNCONFIRMED_TIME_def Let_def
        split: sum.splits option.splits)

lemma trace_sweep: "trace (sweep e ts w) = trace w @ concat (map (sweep_events e) ts)"
  by (induction ts arbitrary: w) (simp_all add: trace_sweep_one)

lemma marked_sweep_events: "marked (sweep_events e t) = to_mark e t"
  by (simp add: sweep_events_def to_mark_def split: sum.splits option.splits)

lemma record_txids_frame:
  "chainState (record_txids txids h w) = chainState w
   \<and> blockQueue (record_txids txids h w) = blockQueue w
   \<and> marked (trace (record_txids txids h w)) = marked (trace w)"
  by (induction txids arbitrary: w) (simp_all add: emit_def)

lemma ChainState_at_96_frame [simp]:
  "ChainState_at_96 e (emit ev w) = ChainState_at_96 e w"
  "ChainState_at_96 e (w\<lparr>blockQueue := q\<rparr>) = ChainState_at_96 e w"
  by (simp_all add: ChainState_at_96_def split: option.splits)

lemma ChainState_at_96_record_txids [simp]:
  "ChainState_at_96 e (record_txids txids h w) = ChainState_at_96 e w"
  by (simp add: ChainState_at_96_def record_txids_frame split: option.splits)

lemma marked_after_commit:
  "marked (trace (after_commit e p w)) = marked (trace w) @
     (if ChainState_at_96 e w = WAITING then
        (case GetAll e False of Inl err \<Rightarrow> [] | Inr txns \<Rightarrow> concat (map (to_mark e) (rev txns)))
      else [])"
  by (simp add: after_commit_def Let_def marked_sweep ChainState_at_96_def
        split: sum.splits option.splits)

lemma marked_process_block:
  "marked (trace (process_block e p m w)) = marked (trace w) @
     (case checkMBlock e m of
        Inl err \<Rightarrow> []
      | Inr txids \<Rightarrow>
          (case CommitHeader e (Header m) of
             Inl err \<Rightarrow> []
           | Inr (newBlock, reorg, height) \<Rightarrow>
               if newBlock \<and> reorg = None \<and> ChainState_at_96 e w = WAITING then
                 (case GetAll e False of
                    Inl err \<Rightarrow> []
                  | Inr txns \<Rightarrow> concat (map (to_mark e) (rev txns)))
               else []))"
proof (cases "checkMBlock e m")
  case (Inl err)
  then show ?thesis by (simp add: process_block_def)
next
  case (Inr txids)
  show ?thesis
  proof (cases "CommitHeader e (Header m)")
    case (Inl err)
    with Inr show ?thesis by (simp add: process_block_def)
  next
    case commit: (Inr res)
    obtain newBlock reorg height where res: "res = (newBlock, reorg, height)"
      by (cases res) auto
    show ?thesis
    proof (cases "newBlock \<and> reorg = None")
      case True
      with Inr commit res show ?thesis
        by (simp add: process_block_def marked_after_commit record_txids_frame)
    next
      case False
      with Inr commit res show ?thesis
        by (cases reorg) (simp_all add: process_block_def Let_def split: option.splits)
    qed
  qed
qed

lemma onMerkleBlock_stops:
  "order_check e p m w = None \<Longrightarrow>
     marked (trace (state_of (onMerkleBlock e p m w))) = marked (trace w)"
  by (auto simp: order_check_def onMerkleBlock_def Let_def
        split: if_splits chan_result.splits prod.splits)

lemma onMerkleBlock_goes_on:
  "order_check e p m w = Some q \<Longrightarrow>
     onMerkleBlock e p m w = Done (process_block e p m (emit CallChainState w\<lparr>blockQueue := q\<rparr>))"
  by (auto simp: order_check_def onMerkleBlock_def Let_def emit_def
        split: if_splits chan_result.splits prod.splits)

text \<open>C6. The hashes a run of \<^verbatim>\<open>onMerkleBlock\<close> hands to \<^verbatim>\<open>markAsDead\<close>: none unless the
  run reaches the check of line 96 (the block passes the order check, the proof is valid,
  the header commit reports a new block without reorg) and \<^verbatim>\<open>ChainState()\<close> answers
  WAITING there, and \<^verbatim>\<open>GetAll(false)\<close> succeeds. The chain state that counts is the one
  read at line 96: a run entered in SYNCING sweeps when another goroutine, such as the
  download the handler has just restarted, has set WAITING by then. When the sweep runs,
  it goes through the rows from the last to the first and hands over exactly the hash of
  every row that is at height 0 with a timestamp more than seven days before now and
  whose id parses. A row failing either condition is passed over, and neither a parse
  error nor an error of \<^verbatim>\<open>markAsDead\<close> on one row changes what is done for the others:
  the trace of the sweep is the concatenation, row by row, of the events of each row (an
  error is logged and the loop goes on), and the hashes among them are the ones
  above.\<close>

theorem onMerkleBlock_sweep:
  "marked (trace (state_of (onMerkleBlock e p m w))) = marked (trace w) @
     (if normal_path e p m w \<and> ChainState_at_96 e w = WAITING then
        (case GetAll e False of
           Inl err \<Rightarrow> []
         | Inr txns \<Rightarrow> concat (map (to_mark e) (rev txns)))
      else [])
   \<and> trace (sweep e ts w) = trace w @ concat (map (sweep_events e) ts)
   \<and> marked (sweep_events e t) = to_mark e t"
proof (intro conjI)
  show "marked (trace (state_of (onMerkleBlock e p m w))) = marked (trace w) @
     (if normal_path e p m w \<and> ChainState_at_96 e w = WAITING then
        (case GetAll e False of
           Inl err \<Rightarrow> []
         | Inr txns \<Rightarrow> concat (map (to_mark e) (rev txns)))
      else [])"
  proof (cases "order_check e p m w")
    case None
    then show ?thesis by (simp add: onMerkleBlock_stops normal_path_def)
  next
    case (Some q)
    show ?thesis
    proof (cases "checkMBlock e m")
      case (Inl err)
      with Some show ?thesis
        by (simp add: onMerkleBlock_goes_on marked_process_block normal_path_def)
    next
      case (Inr txids)
      show ?thesis
      proof (cases "CommitHeader e (Header m)")
        case (Inl err)
        with Some Inr show ?thesis
          by (simp add: onMerkleBlock_goes_on marked_process_block normal_path_def)
      next
        case commit: (Inr res)
        obtain newBlock reorg height where "res = (newBlock, reorg, height)"
          by (cases res) auto
        with Some Inr commit show ?thesis
          by (simp add: onMerkleBlock_goes_on marked_process_block normal_path_def)
      qed
    qed
  qed
next
  show "trace (sweep e ts w) = trace w @ concat (map (sweep_events e) ts)"
    by (rule trace_sweep)
next
  show "marked (sweep_events e t) = to_mark e t"
    by (rule marked_sweep_events)
qed

text \<open>At day 8, a row of day 0 is marked dead and a row of day 6 is not, in a wallet
  that is WAITING. In a syncing wallet nothing is marked when the chain state stays
  SYNCING, and the same row is marked when the chain state has been set to WAITING
  before the read of line 96.\<close>

theorem onMerkleBlock_sweep_witness:
  "marked (trace (state_of (onMerkleBlock env0 peer1 block1 (wallet0\<lparr>chainState := WAITING\<rparr>))))
     = [10]
   \<and> marked (trace (state_of (onMerkleBlock env0 peer1 block1
        (wallet0\<lparr>blockQueue := \<lparr>buf = [7], closed = False, cap = 32\<rparr>\<rparr>)))) = []
   \<and> marked (trace (state_of (onMerkleBlock (env0\<lparr>set_by_others_96 := Some WAITING\<rparr>)
        peer1 block1 (wallet0\<lparr>blockQueue := \<lparr>buf = [7], closed = False, cap = 32\<rparr>\<rparr>))))
     = [10]"
proof -
  let ?q = "wallet0\<lparr>blockQueue := \<lparr>buf = [7], closed = False, cap = 32\<rparr>\<rparr>"
  let ?e = "env0\<lparr>set_by_others_96 := Some WAITING\<rparr>"
  have n1: "normal_path env0 peer1 block1 (wallet0\<lparr>chainState := WAITING\<rparr>)"
    by (simp add: normal_path_def order_check_def env0_def)
  have n2: "normal_path env0 peer1 block1 ?q"
    by (simp add: normal_path_def order_check_def env0_def wallet0_def chan_recv_def
          from_download_peer_def block1_def)
  have n3: "normal_path ?e peer1 block1 ?q"
    by (simp add: normal_path_def order_check_def env0_def wallet0_def chan_recv_def
          from_download_peer_def block1_def)
  from onMerkleBlock_sweep [of env0 peer1 block1 "wallet0\<lparr>chainState := WAITING\<rparr>" "[]" old_tx]
    onMerkleBlock_sweep [of env0 peer1 block1 ?q "[]" old_tx]
    onMerkleBlock_sweep [of ?e peer1 block1 ?q "[]" old_tx] n1 n2 n3
  show ?thesis
    by (simp add: ChainState_at_96_def wallet0_def env0_def to_mark_def stale_def old_tx_def
          fresh_tx_def)
qed

end
